theory Spec2Isabelle
  imports Complex_Main "HOL-Library.Log_Nat"
begin

section \<open>Numeric model\<close>

text \<open>
  The routines are embedded twice.

  In the first embedding the C++ type \<open>Float\<close> (and \<open>double\<close>) is read as \<^typ>\<open>real\<close>:
  arithmetic is exact, there is no rounding and no overflow, and the float literals
  \<open>0.5f\<close>, \<open>1.f / 3.f\<close>, \<open>1e-6f\<close> stand for the rationals they denote. It states what the
  routines compute as formulas. Its constants carry the names of the source.

  In the second embedding (section \<open>Binary32 arithmetic\<close> and the sections after it,
  constants with the suffix \<open>_f32\<close>) \<open>Float\<close> is the IEEE 754 binary32 format, the type
  of the source's literals \<open>0.5f\<close> and \<open>1e-6f\<close>: every \<open>+\<close>, \<open>-\<close>, \<open>*\<close>, \<open>/\<close> and
  square root is rounded once, to nearest, ties to even, with overflow to an infinity and
  with NaN; no two operations are fused and no intermediate result is kept in a wider
  format. It states what the routines return on binary32 inputs.

  The C++ type \<open>int\<close> is modelled by \<^typ>\<open>int\<close>; every index of this file stays far below
  the wrap-around of a 32-bit integer. An array slice is a list; \<open>front()\<close> is \<^const>\<open>hd\<close>
  and \<open>back()\<close> is \<^const>\<open>last\<close>.

  A failed \<open>CHECK_EQ\<close> / \<open>CHECK_GE\<close> aborts the process: it is the value
  \<open>Inl CheckFailed\<close> of a sum type.
\<close>

datatype abort = CheckFailed

text \<open>A read \<open>a[i]\<close> with a C++ \<open>int\<close> index that the surrounding code keeps in range.\<close>

definition elt :: "real list \<Rightarrow> int \<Rightarrow> real" where
  "elt xs i = xs ! nat i"

text \<open>A read that records leaving the array: \<open>None\<close> is an out-of-bounds access.\<close>

definition read :: "real list \<Rightarrow> int \<Rightarrow> real option" where
  "read xs i = (if 0 \<le> i \<and> i < int (length xs) then Some (xs ! nat i) else None)"

section \<open>Interval search\<close>

text \<open>
  Modelled from the spec: \<open>Clamp\<close> and \<open>GetIntArrayerval\<close> are declared in
  \<open>mathutil.h\<close>, which is not among the source files; only the test
  \<open>tests/find_interval.cpp\<close> and the callers in \<open>core/interpolation.cpp\<close> are.
  The spec (4.1) describes a binary search over \<open>[0, n-1]\<close> that keeps a \<open>first\<close>
  candidate, narrows it through the midpoint of the remaining range, and finally clamps
  \<open>first - 1\<close> to \<open>[0, n-2]\<close>.
\<close>

definition Clamp :: "int \<Rightarrow> int \<Rightarrow> int \<Rightarrow> int" where
  "Clamp val low high = (if val < low then low else if val > high then high else val)"

function GetIntArrayerval_loop :: "(int \<Rightarrow> bool) \<Rightarrow> int \<Rightarrow> int \<Rightarrow> int" where
  "GetIntArrayerval_loop pred first len =
     (if len > 0 then
        (let half = len div 2; middle = first + half in
         if pred middle then GetIntArrayerval_loop pred (middle + 1) (len - (half + 1))
         else GetIntArrayerval_loop pred first half)
      else first)"
  by pat_completeness auto
termination
  by (relation "measure (\<lambda>(pred, first, len). nat len)") auto

declare GetIntArrayerval_loop.simps [simp del]

definition GetIntArrayerval :: "int \<Rightarrow> (int \<Rightarrow> bool) \<Rightarrow> int" where
  "GetIntArrayerval sz pred = Clamp (GetIntArrayerval_loop pred 0 sz - 1) 0 (sz - 2)"

section \<open>Catmull-Rom spline evaluation\<close>

text \<open>\<open>CatmullRom\<close>, \<open>core/interpolation.cpp\<close> lines 45-66.\<close>

definition CatmullRom :: "real list \<Rightarrow> real list \<Rightarrow> real \<Rightarrow> abort + real" where
  "CatmullRom nodes values x =
     (if length nodes \<noteq> length values then Inl CheckFailed
      else if \<not> (x \<ge> hd nodes \<and> x \<le> last nodes) then Inr 0
      else
        let idx = GetIntArrayerval (int (length nodes)) (\<lambda>i. elt nodes i \<le> x);
            x0 = elt nodes idx; x1 = elt nodes (idx + 1);
            f0 = elt values idx; f1 = elt values (idx + 1);
            width = x1 - x0;
            d0 = (if idx > 0 then width * (f1 - elt values (idx - 1)) / (x1 - elt nodes (idx - 1))
                  else f1 - f0);
            d1 = (if idx + 2 < int (length nodes)
                  then width * (elt values (idx + 2) - f0) / (elt nodes (idx + 2) - x0)
                  else f1 - f0);
            t = (x - x0) / (x1 - x0); t2 = t * t; t3 = t2 * t
        in Inr ((2 * t3 - 3 * t2 + 1) * f0 + (- 2 * t3 + 3 * t2) * f1 +
                (t3 - 2 * t2 + t) * d0 + (t3 - t2) * d1))"

text \<open>
  \<open>CatmullRomWeights\<close>, lines 68-110. The caller's \<open>*offset\<close> and \<open>weights\<close> buffer are
  passed in and returned, so that what the function leaves untouched is visible. The
  assignments to \<open>weights[k]\<close> are list updates in the order of the source.
\<close>

definition CatmullRomWeights ::
    "real list \<Rightarrow> real \<Rightarrow> int \<Rightarrow> real list \<Rightarrow> abort + (bool \<times> int \<times> real list)" where
  "CatmullRomWeights nodes x offset weights =
     (if \<not> length weights \<ge> 4 then Inl CheckFailed
      else if \<not> (x \<ge> hd nodes \<and> x \<le> last nodes) then Inr (False, offset, weights)
      else
        let idx = GetIntArrayerval (int (length nodes)) (\<lambda>i. elt nodes i \<le> x);
            offset = idx - 1;
            x0 = elt nodes idx; x1 = elt nodes (idx + 1);
            t = (x - x0) / (x1 - x0); t2 = t * t; t3 = t2 * t;
            weights = weights[1 := 2 * t3 - 3 * t2 + 1];
            weights = weights[2 := - 2 * t3 + 3 * t2];
            weights =
              (if idx > 0 then
                 let w0 = (t3 - 2 * t2 + t) * (x1 - x0) / (x1 - elt nodes (idx - 1));
                     weights = weights[0 := - w0]
                 in weights[2 := weights ! 2 + w0]
               else
                 let w0 = t3 - 2 * t2 + t;
                     weights = weights[0 := 0];
                     weights = weights[1 := weights ! 1 - w0]
                 in weights[2 := weights ! 2 + w0]);
            weights =
              (if idx + 2 < int (length nodes) then
                 let w3 = (t3 - t2) * (x1 - x0) / (elt nodes (idx + 2) - x0);
                     weights = weights[1 := weights ! 1 - w3]
                 in weights[3 := w3]
               else
                 let w3 = t3 - t2;
                     weights = weights[1 := weights ! 1 - w3];
                     weights = weights[2 := weights ! 2 + w3]
                 in weights[3 := 0])
        in Inr (True, offset, weights))"

text \<open>
  What the spec (4.3) says the weights are for: dotting them with the four consecutive
  value entries \<open>offset .. offset + 3\<close>, an entry whose weight is 0 not being read.
  \<open>None\<close> is a read outside the value sequence.
\<close>

definition weighted_term :: "real list \<Rightarrow> int \<Rightarrow> real list \<Rightarrow> nat \<Rightarrow> real option" where
  "weighted_term values offset weights j =
     (if weights ! j \<noteq> 0
      then map_option (\<lambda>v. weights ! j * v) (read values (offset + int j))
      else Some 0)"

definition weighted_eval :: "real list \<Rightarrow> int \<Rightarrow> real list \<Rightarrow> real option" where
  "weighted_eval values offset weights =
     (case (weighted_term values offset weights 0, weighted_term values offset weights 1,
            weighted_term values offset weights 2, weighted_term values offset weights 3) of
        (Some s0, Some s1, Some s2, Some s3) \<Rightarrow> Some (s0 + s1 + s2 + s3)
      | _ \<Rightarrow> None)"

section \<open>Spline integration\<close>

text \<open>
  The finite-difference derivatives of segment \<open>i\<close>, scaled by the segment width, as
  every routine of the file computes them (lines 53-61, 128-135, 283-290): the
  neighbouring value where there is one, the secant \<open>f1 - f0\<close> at a domain boundary.
\<close>

definition segment_d0 :: "real list \<Rightarrow> real list \<Rightarrow> nat \<Rightarrow> real" where
  "segment_d0 x values i =
     (if i > 0 then (x ! (i + 1) - x ! i) * (values ! (i + 1) - values ! (i - 1)) / (x ! (i + 1) - x ! (i - 1))
      else values ! (i + 1) - values ! i)"

definition segment_d1 :: "real list \<Rightarrow> real list \<Rightarrow> nat \<Rightarrow> real" where
  "segment_d1 x values i =
     (if i + 2 < length x then (x ! (i + 1) - x ! i) * (values ! (i + 2) - values ! i) / (x ! (i + 2) - x ! i)
      else values ! (i + 1) - values ! i)"

text \<open>
  \<open>IntegrateCatmullRom\<close>, lines 270-297. The body of the \<open>for\<close> loop is one step on the
  pair of the running \<open>sum\<close> (here \<open>sm\<close>) and the \<open>cdf\<close> buffer; the loop runs it for
  \<open>i = 0, ..., x.size() - 2\<close>. The result is the returned sum and the buffer.
\<close>

definition IntegrateCatmullRom_body ::
    "real list \<Rightarrow> real list \<Rightarrow> nat \<Rightarrow> real \<times> real list \<Rightarrow> real \<times> real list" where
  "IntegrateCatmullRom_body x values i s =
     (case s of (sm, cdf) \<Rightarrow>
        let x0 = x ! i; x1 = x ! (i + 1);
            f0 = values ! i; f1 = values ! (i + 1);
            width = x1 - x0;
            d0 = (if i > 0 then width * (f1 - values ! (i - 1)) / (x1 - x ! (i - 1))
                  else f1 - f0);
            d1 = (if i + 2 < length x then width * (values ! (i + 2) - f0) / (x ! (i + 2) - x0)
                  else f1 - f0);
            sm = sm + ((d0 - d1) * (1 / 12) + (f0 + f1) * (1 / 2)) * width
        in (sm, cdf[i + 1 := sm]))"

definition IntegrateCatmullRom ::
    "real list \<Rightarrow> real list \<Rightarrow> real list \<Rightarrow> abort + (real \<times> real list)" where
  "IntegrateCatmullRom x values cdf =
     (if length x \<noteq> length values then Inl CheckFailed
      else Inr (fold (IntegrateCatmullRom_body x values) [0 ..< length x - 1] (0, cdf[0 := 0])))"

section \<open>Spline sampling\<close>

text \<open>
  Modelled from the spec: \<open>SafeSqrt\<close> is declared in \<open>mathutil.h\<close>, which is not among
  the source files; the spec (4.4) says it guards the square root against a negative
  argument.
\<close>

definition SafeSqrt :: "real \<Rightarrow> real" where
  "SafeSqrt v = sqrt (max 0 v)"

text \<open>
  A floating-point quotient whose divisor may be zero is infinite or not a number; every
  comparison \<open>t > a && t < b\<close> on such a value fails. \<open>None\<close> stands for it.
\<close>

definition fdiv :: "real \<Rightarrow> real \<Rightarrow> real option" where
  "fdiv p q = (if q = 0 then None else Some (p / q))"

text \<open>
  The Newton-bisection loop of \<open>SampleCatmullRom\<close>, lines 149-175: \<open>while (true)\<close> with
  one \<open>break\<close>. The state is the bracket \<open>a\<close>, \<open>b\<close> and the current \<open>t\<close>; the loop
  returns the final \<open>t\<close> and \<open>fhat\<close>. A run that never reaches the \<open>break\<close> is \<open>None\<close>.
\<close>

partial_function (option) SampleCatmullRom_loop ::
    "real \<Rightarrow> real \<Rightarrow> real \<Rightarrow> real \<Rightarrow> real \<Rightarrow> real \<Rightarrow> real \<Rightarrow> real option \<Rightarrow> (real \<times> real) option" where
  "SampleCatmullRom_loop f0 f1 d0 d1 u a b t =
     (let t = (case t of
                 None \<Rightarrow> (1 / 2) * (a + b)
               | Some v \<Rightarrow> if \<not> (v > a \<and> v < b) then (1 / 2) * (a + b) else v);
          Fhat = t * (f0 +
                      t * ((1 / 2) * d0 +
                           t * ((1 / 3) * (- 2 * d0 - d1) + f1 - f0 +
                                t * ((1 / 4) * (d0 + d1) + (1 / 2) * (f0 - f1)))));
          fhat = f0 +
                 t * (d0 +
                      t * (- 2 * d0 - d1 + 3 * (f1 - f0) +
                           t * (d0 + d1 + 2 * (f0 - f1))))
      in if \<bar>Fhat - u\<bar> < 1 / 1000000 \<or> b - a < 1 / 1000000 then Some (t, fhat)
         else SampleCatmullRom_loop f0 f1 d0 d1 u
                (if Fhat - u < 0 then t else a)
                (if Fhat - u < 0 then b else t)
                (map_option (\<lambda>q. t - q) (fdiv (Fhat - u) fhat)))"

text \<open>
  \<open>SampleCatmullRom\<close>, lines 112-181. The optional outputs \<open>*fval\<close> and \<open>*pdf\<close> are
  returned with the sample position, as the triple (position, fval, pdf).
\<close>

definition SampleCatmullRom ::
    "real list \<Rightarrow> real list \<Rightarrow> real list \<Rightarrow> real \<Rightarrow> (abort + real \<times> real \<times> real) option" where
  "SampleCatmullRom x f F u =
     (if length x \<noteq> length f \<or> length f \<noteq> length F then Some (Inl CheckFailed)
      else
        let u = u * last F;
            i = GetIntArrayerval (int (length F)) (\<lambda>i. elt F i \<le> u);
            x0 = elt x i; x1 = elt x (i + 1);
            f0 = elt f i; f1 = elt f (i + 1);
            width = x1 - x0;
            d0 = (if i > 0 then width * (f1 - elt f (i - 1)) / (x1 - elt x (i - 1))
                  else f1 - f0);
            d1 = (if i + 2 < int (length x) then width * (elt f (i + 2) - f0) / (elt x (i + 2) - x0)
                  else f1 - f0);
            u = (u - elt F i) / width;
            t = (if f0 \<noteq> f1
                 then Some ((f0 - SafeSqrt (f0 * f0 + 2 * u * (f1 - f0))) / (f0 - f1))
                 else fdiv u f0)
        in map_option (\<lambda>(t, fhat). Inr (x0 + width * t, fhat, fhat / last F))
             (SampleCatmullRom_loop f0 f1 d0 d1 u 0 1 t))"

text \<open>
  The \<open>interpolate\<close> closure of \<open>SampleCatmullRom2D\<close>, lines 192-198, over the \<open>weights\<close>
  and \<open>offset\<close> that \<open>CatmullRomWeights\<close> produced for \<open>nodes1\<close> (line 189); \<open>n2\<close> is
  \<open>nodes2.size()\<close>. Every array read is checked: \<open>None\<close> is a read out of bounds.
\<close>

definition interpolate :: "real list \<Rightarrow> int \<Rightarrow> int \<Rightarrow> real list \<Rightarrow> int \<Rightarrow> real option" where
  "interpolate weights offset n2 array idx =
     fold (\<lambda>i value.
             if weights ! i \<noteq> 0
             then (case (value, read array ((offset + int i) * n2 + idx)) of
                     (Some v, Some e) \<Rightarrow> Some (v + e * weights ! i)
                   | _ \<Rightarrow> None)
             else value)
          [0, 1, 2, 3] (Some 0)"

section \<open>Fourier sampling\<close>

text \<open>
  Modelled from the spec: the constants \<open>Pi\<close> and \<open>Inv2Pi\<close> are declared in \<open>pbrt.h\<close>,
  which is not among the source files; the spec (4.9) gives the PDF as
  \<open>f(phi) / (2 pi a_0)\<close>.
\<close>

definition Pi :: real where
  "Pi = pi"

definition Inv2Pi :: real where
  "Inv2Pi = 1 / (2 * pi)"

text \<open>
  The inner \<open>for\<close> loop of \<open>SampleFourier\<close>, lines 396-408, one step for index \<open>k\<close> on
  the tuple (sinPhiPrev, sinPhiCur, cosPhiPrev, cosPhiCur, F, f).
\<close>

definition SampleFourier_term ::
    "real list \<Rightarrow> real list \<Rightarrow> real \<Rightarrow> nat
       \<Rightarrow> real \<times> real \<times> real \<times> real \<times> real \<times> real \<Rightarrow> real \<times> real \<times> real \<times> real \<times> real \<times> real" where
  "SampleFourier_term ak recip cosPhi k s =
     (case s of (sinPhiPrev, sinPhiCur, cosPhiPrev, cosPhiCur, F, f) \<Rightarrow>
        let sinPhiNext = 2 * cosPhi * sinPhiCur - sinPhiPrev;
            cosPhiNext = 2 * cosPhi * cosPhiCur - cosPhiPrev
        in (sinPhiCur, sinPhiNext, cosPhiCur, cosPhiNext,
            F + ak ! k * recip ! k * sinPhiNext, f + ak ! k * cosPhiNext))"

text \<open>
  The evaluation of \<open>F\<close> and \<open>f\<close> at \<open>phi\<close>, lines 388-409, returned as the pair
  \<open>(F, f)\<close>.
\<close>

definition SampleFourier_eval :: "real list \<Rightarrow> real list \<Rightarrow> real \<Rightarrow> real \<Rightarrow> real \<times> real" where
  "SampleFourier_eval ak recip u phi =
     (let cosPhi = cos phi;
          sinPhi = SafeSqrt (1 - cosPhi * cosPhi)
      in case fold (SampleFourier_term ak recip cosPhi) [1 ..< length ak]
                   (- sinPhi, 0, cosPhi, 1, ak ! 0 * phi, ak ! 0) of
           (sinPhiPrev, sinPhiCur, cosPhiPrev, cosPhiCur, F, f) \<Rightarrow> (F - u * ak ! 0 * Pi, f))"

text \<open>
  The \<open>while (true)\<close> loop of \<open>SampleFourier\<close>, lines 384-425, on the bracket \<open>a\<close>, \<open>b\<close>
  and the current \<open>phi\<close>; it returns the final \<open>phi\<close> and \<open>f\<close>, and \<open>None\<close> when the
  \<open>break\<close> is never reached.
\<close>

partial_function (option) SampleFourier_loop ::
    "real list \<Rightarrow> real list \<Rightarrow> real \<Rightarrow> real \<Rightarrow> real \<Rightarrow> real \<Rightarrow> (real \<times> real) option" where
  "SampleFourier_loop ak recip u a b phi =
     (let F = fst (SampleFourier_eval ak recip u phi);
          f = snd (SampleFourier_eval ak recip u phi);
          a' = (if F > 0 then a else phi);
          b' = (if F > 0 then phi else b)
      in if \<bar>F\<bar> < 1 / 1000000 \<or> b' - a' < 1 / 1000000 then Some (phi, f)
         else SampleFourier_loop ak recip u a' b'
                (case fdiv F f of
                   None \<Rightarrow> (1 / 2) * (a' + b')
                 | Some q \<Rightarrow>
                     if \<not> (phi - q > a' \<and> phi - q < b') then (1 / 2) * (a' + b') else phi - q))"

text \<open>
  \<open>SampleFourier\<close>, lines 374-431. The result is the triple of the returned \<open>f\<close>, the
  value written to \<open>*pdf\<close> and the value written to \<open>*phiPtr\<close>.
\<close>

definition SampleFourier :: "real list \<Rightarrow> real list \<Rightarrow> real \<Rightarrow> (real \<times> real \<times> real) option" where
  "SampleFourier ak recip u =
     (let flip = (u \<ge> 1 / 2);
          u = (if flip then 1 - 2 * (u - 1 / 2) else u * 2)
      in map_option (\<lambda>(phi, f). (f, Inv2Pi * f / ak ! 0, if flip then 2 * Pi - phi else phi))
           (SampleFourier_loop ak recip u 0 Pi ((1 / 2) * Pi)))"

section \<open>Binary32 arithmetic\<close>

text \<open>
  A binary32 value is a real number (one of the finitely many that the format holds), an
  infinity or NaN. The sign of a zero is not modelled: it only decides the sign of an
  infinity obtained by dividing by zero, and every comparison of the routines treats the
  two infinities and NaN alike.
\<close>

datatype f32 = Fin real | PInf | NInf | NaN

text \<open>Rounding to the nearest integer, ties to the even one.\<close>

definition round_even :: "real \<Rightarrow> int" where
  "round_even q = (let n = \<lfloor>q\<rfloor>; r = q - of_int n
                   in if r < 1 / 2 then n else if 1 / 2 < r then n + 1
                      else if even n then n else n + 1)"

text \<open>The binary exponent of a non-zero real: \<open>2 ^ e \<le> |x| < 2 ^ (e + 1)\<close>.\<close>

definition bexp :: "real \<Rightarrow> int" where
  "bexp x = (if 1 \<le> \<bar>x\<bar> then int (floorlog 2 (nat \<lfloor>\<bar>x\<bar>\<rfloor>)) - 1
             else - int (floorlog 2 (nat (\<lceil>1 / \<bar>x\<bar>\<rceil> - 1))))"

definition pow2 :: "int \<Rightarrow> real" where
  "pow2 k = (if 0 \<le> k then 2 ^ nat k else 1 / 2 ^ nat (- k))"

text \<open>
  Rounding a real to binary32: 24 significant bits, exponents from \<open>-126\<close> (below it the
  spacing stays \<open>2 ^ -149\<close>: subnormal numbers), and an infinity once the rounded value
  reaches \<open>2 ^ 128\<close>.
\<close>

definition rd :: "real \<Rightarrow> f32" where
  "rd x = (if x = 0 then Fin 0
           else let e = max (bexp x) (- 126);
                    q = pow2 (e - 23);
                    r = of_int (round_even (x / q)) * q
                in if pow2 128 \<le> \<bar>r\<bar> then (if 0 < x then PInf else NInf) else Fin r)"

fun fneg :: "f32 \<Rightarrow> f32" where
  "fneg (Fin x) = Fin (- x)"
| "fneg PInf = NInf"
| "fneg NInf = PInf"
| "fneg NaN = NaN"

fun fadd :: "f32 \<Rightarrow> f32 \<Rightarrow> f32" where
  "fadd (Fin x) (Fin y) = rd (x + y)"
| "fadd NaN b = NaN"
| "fadd a NaN = NaN"
| "fadd PInf NInf = NaN"
| "fadd NInf PInf = NaN"
| "fadd PInf b = PInf"
| "fadd NInf b = NInf"
| "fadd a PInf = PInf"
| "fadd a NInf = NInf"

fun fmul :: "f32 \<Rightarrow> f32 \<Rightarrow> f32" where
  "fmul (Fin x) (Fin y) = rd (x * y)"
| "fmul NaN b = NaN"
| "fmul a NaN = NaN"
| "fmul (Fin x) PInf = (if x = 0 then NaN else if 0 < x then PInf else NInf)"
| "fmul (Fin x) NInf = (if x = 0 then NaN else if 0 < x then NInf else PInf)"
| "fmul PInf (Fin y) = (if y = 0 then NaN else if 0 < y then PInf else NInf)"
| "fmul NInf (Fin y) = (if y = 0 then NaN else if 0 < y then NInf else PInf)"
| "fmul PInf PInf = PInf"
| "fmul PInf NInf = NInf"
| "fmul NInf PInf = NInf"
| "fmul NInf NInf = PInf"

fun fdiv32 :: "f32 \<Rightarrow> f32 \<Rightarrow> f32" where
  "fdiv32 (Fin x) (Fin y) =
     (if y = 0 then (if x = 0 then NaN else if 0 < x then PInf else NInf) else rd (x / y))"
| "fdiv32 NaN b = NaN"
| "fdiv32 a NaN = NaN"
| "fdiv32 (Fin x) b = Fin 0"
| "fdiv32 PInf (Fin y) = (if 0 \<le> y then PInf else NInf)"
| "fdiv32 NInf (Fin y) = (if 0 \<le> y then NInf else PInf)"
| "fdiv32 a b = NaN"

fun fsqrt :: "f32 \<Rightarrow> f32" where
  "fsqrt (Fin x) = (if x < 0 then NaN else rd (sqrt x))"
| "fsqrt PInf = PInf"
| "fsqrt a = NaN"

fun fabs :: "f32 \<Rightarrow> f32" where
  "fabs (Fin x) = Fin \<bar>x\<bar>"
| "fabs PInf = PInf"
| "fabs NInf = PInf"
| "fabs NaN = NaN"

text \<open>The comparisons \<open><=\<close>, \<open><\<close> and \<open>!=\<close>: with a NaN operand the first two are false, the last true.\<close>

fun fle :: "f32 \<Rightarrow> f32 \<Rightarrow> bool" where
  "fle (Fin x) (Fin y) = (x \<le> y)"
| "fle NaN b = False"
| "fle a NaN = False"
| "fle NInf b = True"
| "fle a PInf = True"
| "fle a b = False"

fun flt :: "f32 \<Rightarrow> f32 \<Rightarrow> bool" where
  "flt (Fin x) (Fin y) = (x < y)"
| "flt NaN b = False"
| "flt a NaN = False"
| "flt PInf b = False"
| "flt a NInf = False"
| "flt a b = True"

fun fne :: "f32 \<Rightarrow> f32 \<Rightarrow> bool" where
  "fne (Fin x) (Fin y) = (x \<noteq> y)"
| "fne NaN b = True"
| "fne a NaN = True"
| "fne a b = (a \<noteq> b)"

text \<open>
  The operators of the source on binary32 values: \<open>a + b\<close>, \<open>a - b\<close>, \<open>- a\<close>, \<open>a * b\<close>,
  \<open>a / b\<close>, \<open>std::abs\<close>, \<open>a <= b\<close> and \<open>a < b\<close> (\<open>a >= b\<close> is \<open>b <= a\<close>), and the constants 0
  and 1.
\<close>

instantiation f32 :: "{zero, one, plus, minus, uminus, times, inverse, abs, ord}"
begin
definition zero_f32 :: f32 where "zero_f32 = Fin 0"
definition one_f32 :: f32 where "one_f32 = Fin 1"
definition plus_f32 :: "f32 \<Rightarrow> f32 \<Rightarrow> f32" where "plus_f32 a b = fadd a b"
definition minus_f32 :: "f32 \<Rightarrow> f32 \<Rightarrow> f32" where "minus_f32 a b = fadd a (fneg b)"
definition uminus_f32 :: "f32 \<Rightarrow> f32" where "uminus_f32 a = fneg a"
definition times_f32 :: "f32 \<Rightarrow> f32 \<Rightarrow> f32" where "times_f32 a b = fmul a b"
definition divide_f32 :: "f32 \<Rightarrow> f32 \<Rightarrow> f32" where "divide_f32 a b = fdiv32 a b"
definition inverse_f32 :: "f32 \<Rightarrow> f32" where "inverse_f32 a = fdiv32 (Fin 1) a"
definition abs_f32 :: "f32 \<Rightarrow> f32" where "abs_f32 a = fabs a"
definition less_eq_f32 :: "f32 \<Rightarrow> f32 \<Rightarrow> bool" where "less_eq_f32 a b = fle a b"
definition less_f32 :: "f32 \<Rightarrow> f32 \<Rightarrow> bool" where "less_f32 a b = flt a b"
instance ..
end

text \<open>A finite binary32 number: a real that rounding leaves as it is.\<close>

definition is_binary32 :: "f32 \<Rightarrow> bool" where
  "is_binary32 a = (case a of Fin v \<Rightarrow> rd v = Fin v | _ \<Rightarrow> False)"

definition is_finite :: "f32 \<Rightarrow> bool" where
  "is_finite a = (case a of Fin v \<Rightarrow> True | _ \<Rightarrow> False)"

definition elt_f :: "f32 list \<Rightarrow> int \<Rightarrow> f32" where
  "elt_f xs i = xs ! nat i"

section \<open>Catmull-Rom spline evaluation in binary32\<close>

text \<open>
  The derivative estimates of segment \<open>idx\<close> as \<open>CatmullRom\<close> computes them, lines 52-61,
  in the order of the source's operations.
\<close>

definition CatmullRom_d0_f32 :: "f32 list \<Rightarrow> f32 list \<Rightarrow> int \<Rightarrow> f32" where
  "CatmullRom_d0_f32 nodes values idx =
     (let x0 = elt_f nodes idx; x1 = elt_f nodes (idx + 1);
          f0 = elt_f values idx; f1 = elt_f values (idx + 1);
          width = x1 - x0
      in if idx > 0 then width * (f1 - elt_f values (idx - 1)) / (x1 - elt_f nodes (idx - 1))
         else f1 - f0)"

definition CatmullRom_d1_f32 :: "f32 list \<Rightarrow> f32 list \<Rightarrow> int \<Rightarrow> f32" where
  "CatmullRom_d1_f32 nodes values idx =
     (let x0 = elt_f nodes idx; x1 = elt_f nodes (idx + 1);
          f0 = elt_f values idx; f1 = elt_f values (idx + 1);
          width = x1 - x0
      in if idx + 2 < int (length nodes)
         then width * (elt_f values (idx + 2) - f0) / (elt_f nodes (idx + 2) - x0)
         else f1 - f0)"

text \<open>\<open>CatmullRom\<close>, lines 45-66, every operation rounded to binary32.\<close>

definition CatmullRom_f32 :: "f32 list \<Rightarrow> f32 list \<Rightarrow> f32 \<Rightarrow> abort + f32" where
  "CatmullRom_f32 nodes values x =
     (if length nodes \<noteq> length values then Inl CheckFailed
      else if \<not> (x \<ge> hd nodes \<and> x \<le> last nodes) then Inr 0
      else
        let idx = GetIntArrayerval (int (length nodes)) (\<lambda>i. elt_f nodes i \<le> x);
            x0 = elt_f nodes idx; x1 = elt_f nodes (idx + 1);
            f0 = elt_f values idx; f1 = elt_f values (idx + 1);
            d0 = CatmullRom_d0_f32 nodes values idx;
            d1 = CatmullRom_d1_f32 nodes values idx;
            t = (x - x0) / (x1 - x0); t2 = t * t; t3 = t2 * t
        in Inr ((Fin 2 * t3 - Fin 3 * t2 + 1) * f0 + (Fin (- 2) * t3 + Fin 3 * t2) * f1 +
                (t3 - Fin 2 * t2 + t) * d0 + (t3 - t2) * d1))"

text \<open>\<open>CatmullRomWeights\<close>, lines 68-110, every operation rounded to binary32.\<close>

definition CatmullRomWeights_f32 ::
    "f32 list \<Rightarrow> f32 \<Rightarrow> int \<Rightarrow> f32 list \<Rightarrow> abort + (bool \<times> int \<times> f32 list)" where
  "CatmullRomWeights_f32 nodes x offset weights =
     (if \<not> length weights \<ge> 4 then Inl CheckFailed
      else if \<not> (x \<ge> hd nodes \<and> x \<le> last nodes) then Inr (False, offset, weights)
      else
        let idx = GetIntArrayerval (int (length nodes)) (\<lambda>i. elt_f nodes i \<le> x);
            offset = idx - 1;
            x0 = elt_f nodes idx; x1 = elt_f nodes (idx + 1);
            t = (x - x0) / (x1 - x0); t2 = t * t; t3 = t2 * t;
            weights = weights[1 := Fin 2 * t3 - Fin 3 * t2 + 1];
            weights = weights[2 := Fin (- 2) * t3 + Fin 3 * t2];
            weights =
              (if idx > 0 then
                 let w0 = (t3 - Fin 2 * t2 + t) * (x1 - x0) / (x1 - elt_f nodes (idx - 1));
                     weights = weights[0 := - w0]
                 in weights[2 := weights ! 2 + w0]
               else
                 let w0 = t3 - Fin 2 * t2 + t;
                     weights = weights[0 := 0];
                     weights = weights[1 := weights ! 1 - w0]
                 in weights[2 := weights ! 2 + w0]);
            weights =
              (if idx + 2 < int (length nodes) then
                 let w3 = (t3 - t2) * (x1 - x0) / (elt_f nodes (idx + 2) - x0);
                     weights = weights[1 := weights ! 1 - w3]
                 in weights[3 := w3]
               else
                 let w3 = t3 - t2;
                     weights = weights[1 := weights ! 1 - w3];
                     weights = weights[2 := weights ! 2 + w3]
                 in weights[3 := 0])
        in Inr (True, offset, weights))"

text \<open>
  The \<open>interpolate\<close> closure of \<open>SampleCatmullRom2D\<close>, lines 192-198, in binary32: the
  code's own way of dotting the four weights with table entries, \<open>value\<close> starting at 0
  and \<open>value += array[...] * weights[i]\<close> for each non-zero weight. With \<open>n2 = 1\<close> and
  \<open>idx = 0\<close> it is the dot product with \<open>values[offset .. offset + 3]\<close>.
\<close>

definition interpolate_f32 :: "f32 list \<Rightarrow> int \<Rightarrow> int \<Rightarrow> f32 list \<Rightarrow> int \<Rightarrow> f32" where
  "interpolate_f32 weights offset n2 array idx =
     fold (\<lambda>i value.
             if fne (weights ! i) 0
             then value + elt_f array ((offset + int i) * n2 + idx) * weights ! i
             else value)
          [0, 1, 2, 3] 0"

section \<open>Spline integration in binary32\<close>

text \<open>
  \<open>IntegrateCatmullRom\<close>, lines 270-297, every operation rounded to binary32: the body
  of the \<open>for\<close> loop as one step on the pair of the running \<open>sum\<close> and the \<open>cdf\<close>
  buffer, run for \<open>i = 0, ..., x.size() - 2\<close>.
\<close>

definition IntegrateCatmullRom_body_f32 ::
    "f32 list \<Rightarrow> f32 list \<Rightarrow> nat \<Rightarrow> f32 \<times> f32 list \<Rightarrow> f32 \<times> f32 list" where
  "IntegrateCatmullRom_body_f32 x values i s =
     (case s of (sm, cdf) \<Rightarrow>
        let x0 = x ! i; x1 = x ! (i + 1);
            f0 = values ! i; f1 = values ! (i + 1);
            width = x1 - x0;
            d0 = (if i > 0 then width * (f1 - values ! (i - 1)) / (x1 - x ! (i - 1))
                  else f1 - f0);
            d1 = (if i + 2 < length x then width * (values ! (i + 2) - f0) / (x ! (i + 2) - x0)
                  else f1 - f0);
            sm = sm + ((d0 - d1) * (1 / Fin 12) + (f0 + f1) * Fin (1 / 2)) * width
        in (sm, cdf[i + 1 := sm]))"

definition IntegrateCatmullRom_f32 ::
    "f32 list \<Rightarrow> f32 list \<Rightarrow> f32 list \<Rightarrow> abort + (f32 \<times> f32 list)" where
  "IntegrateCatmullRom_f32 x values cdf =
     (if length x \<noteq> length values then Inl CheckFailed
      else Inr (fold (IntegrateCatmullRom_body_f32 x values) [0 ..< length x - 1] (0, cdf[0 := 0])))"

section \<open>Spline sampling in binary32\<close>

text \<open>
  Modelled from the spec: \<open>SafeSqrt\<close> is declared in \<open>mathutil.h\<close>, which is not among
  the source files; the spec (4.4) says it guards the square root against a negative
  argument: the square root of the larger of 0 and the argument.
\<close>

definition SafeSqrt_f32 :: "f32 \<Rightarrow> f32" where
  "SafeSqrt_f32 v = fsqrt (if 0 < v then v else 0)"

text \<open>
  The loop of \<open>SampleCatmullRom\<close>, lines 149-175, in binary32. A run that never reaches
  the \<open>break\<close> is \<open>None\<close>.
\<close>

partial_function (option) SampleCatmullRom_loop_f32 ::
    "f32 \<Rightarrow> f32 \<Rightarrow> f32 \<Rightarrow> f32 \<Rightarrow> f32 \<Rightarrow> f32 \<Rightarrow> f32 \<Rightarrow> f32 \<Rightarrow> (f32 \<times> f32) option" where
  "SampleCatmullRom_loop_f32 f0 f1 d0 d1 u a b t =
     (let t = (if \<not> (t > a \<and> t < b) then Fin (1 / 2) * (a + b) else t);
          Fhat = t * (f0 +
                      t * (Fin (1 / 2) * d0 +
                           t * ((1 / Fin 3) * (Fin (- 2) * d0 - d1) + f1 - f0 +
                                t * (Fin (1 / 4) * (d0 + d1) + Fin (1 / 2) * (f0 - f1)))));
          fhat = f0 +
                 t * (d0 +
                      t * (Fin (- 2) * d0 - d1 + Fin 3 * (f1 - f0) +
                           t * (d0 + d1 + Fin 2 * (f0 - f1))))
      in if \<bar>Fhat - u\<bar> < rd (1 / 1000000) \<or> b - a < rd (1 / 1000000) then Some (t, fhat)
         else SampleCatmullRom_loop_f32 f0 f1 d0 d1 u
                (if Fhat - u < 0 then t else a)
                (if Fhat - u < 0 then b else t)
                (t - (Fhat - u) / fhat))"

text \<open>
  \<open>SampleCatmullRom\<close>, lines 112-181, in binary32; the result is the triple (position,
  \<open>*fval\<close>, \<open>*pdf\<close>).
\<close>

definition SampleCatmullRom_f32 ::
    "f32 list \<Rightarrow> f32 list \<Rightarrow> f32 list \<Rightarrow> f32 \<Rightarrow> (abort + f32 \<times> f32 \<times> f32) option" where
  "SampleCatmullRom_f32 x f F u =
     (if length x \<noteq> length f \<or> length f \<noteq> length F then Some (Inl CheckFailed)
      else
        let u = u * last F;
            i = GetIntArrayerval (int (length F)) (\<lambda>i. elt_f F i \<le> u);
            x0 = elt_f x i; x1 = elt_f x (i + 1);
            f0 = elt_f f i; f1 = elt_f f (i + 1);
            width = x1 - x0;
            d0 = (if i > 0 then width * (f1 - elt_f f (i - 1)) / (x1 - elt_f x (i - 1))
                  else f1 - f0);
            d1 = (if i + 2 < int (length x) then width * (elt_f f (i + 2) - f0) / (elt_f x (i + 2) - x0)
                  else f1 - f0);
            u = (u - elt_f F i) / width;
            t = (if fne f0 f1
                 then (f0 - SafeSqrt_f32 (f0 * f0 + Fin 2 * u * (f1 - f0))) / (f0 - f1)
                 else u / f0)
        in map_option (\<lambda>(t, fhat). Inr (x0 + width * t, fhat, fhat / last F))
             (SampleCatmullRom_loop_f32 f0 f1 d0 d1 u 0 1 t))"

text \<open>
  The loop of \<open>SampleCatmullRom2D\<close>, lines 237-262, in binary32. It differs from the loop
  of \<open>SampleCatmullRom\<close> in its first line only: the test \<open>!(t >= a && t <= b)\<close> accepts a
  \<open>t\<close> at an end of the bracket.
\<close>

partial_function (option) SampleCatmullRom2D_loop_f32 ::
    "f32 \<Rightarrow> f32 \<Rightarrow> f32 \<Rightarrow> f32 \<Rightarrow> f32 \<Rightarrow> f32 \<Rightarrow> f32 \<Rightarrow> f32 \<Rightarrow> (f32 \<times> f32) option" where
  "SampleCatmullRom2D_loop_f32 f0 f1 d0 d1 u a b t =
     (let t = (if \<not> (t \<ge> a \<and> t \<le> b) then Fin (1 / 2) * (a + b) else t);
          Fhat = t * (f0 +
                      t * (Fin (1 / 2) * d0 +
                           t * ((1 / Fin 3) * (Fin (- 2) * d0 - d1) + f1 - f0 +
                                t * (Fin (1 / 4) * (d0 + d1) + Fin (1 / 2) * (f0 - f1)))));
          fhat = f0 +
                 t * (d0 +
                      t * (Fin (- 2) * d0 - d1 + Fin 3 * (f1 - f0) +
                           t * (d0 + d1 + Fin 2 * (f0 - f1))))
      in if \<bar>Fhat - u\<bar> < rd (1 / 1000000) \<or> b - a < rd (1 / 1000000) then Some (t, fhat)
         else SampleCatmullRom2D_loop_f32 f0 f1 d0 d1 u
                (if Fhat - u < 0 then t else a)
                (if Fhat - u < 0 then b else t)
                (t - (Fhat - u) / fhat))"

text \<open>
  \<open>SampleCatmullRom2D\<close>, lines 183-268, in binary32. The local \<open>offset\<close> and \<open>weights\<close>
  are not initialised in the source; \<open>CatmullRomWeights\<close> writes them all before they are
  read, so their first contents (here zeros) never show. \<open>None\<close> is a run whose loop never
  reaches the \<open>break\<close>; the early \<open>return 0\<close> leaves \<open>*fval\<close> and \<open>*pdf\<close> unwritten
  (the inner \<open>None\<close>), a full run returns the position and the two written values.
\<close>

definition SampleCatmullRom2D_f32 ::
    "f32 list \<Rightarrow> f32 list \<Rightarrow> f32 list \<Rightarrow> f32 list \<Rightarrow> f32 \<Rightarrow> f32
       \<Rightarrow> (abort + f32 \<times> (f32 \<times> f32) option) option" where
  "SampleCatmullRom2D_f32 nodes1 nodes2 values cdf alpha u =
     (case CatmullRomWeights_f32 nodes1 alpha 0 [0, 0, 0, 0] of
        Inl e \<Rightarrow> Some (Inl e)
      | Inr (ok, offset, weights) \<Rightarrow>
          if \<not> ok then Some (Inr (0, None))
          else
            let n2 = int (length nodes2);
                maximum = interpolate_f32 weights offset n2 cdf (n2 - 1);
                u = u * maximum;
                idx = GetIntArrayerval n2 (\<lambda>i. interpolate_f32 weights offset n2 cdf i \<le> u);
                f0 = interpolate_f32 weights offset n2 values idx;
                f1 = interpolate_f32 weights offset n2 values (idx + 1);
                x0 = elt_f nodes2 idx; x1 = elt_f nodes2 (idx + 1);
                width = x1 - x0;
                u = (u - interpolate_f32 weights offset n2 cdf idx) / width;
                d0 = (if idx > 0
                      then width * (f1 - interpolate_f32 weights offset n2 values (idx - 1)) /
                           (x1 - elt_f nodes2 (idx - 1))
                      else f1 - f0);
                d1 = (if idx + 2 < n2
                      then width * (interpolate_f32 weights offset n2 values (idx + 2) - f0) /
                           (elt_f nodes2 (idx + 2) - x0)
                      else f1 - f0);
                t = (if fne f0 f1
                     then (f0 - SafeSqrt_f32 (f0 * f0 + Fin 2 * u * (f1 - f0))) / (f0 - f1)
                     else u / f0)
            in map_option (\<lambda>(t, fhat). Inr (x0 + width * t, Some (fhat, fhat / maximum)))
                 (SampleCatmullRom2D_loop_f32 f0 f1 d0 d1 u 0 1 t))"

text \<open>The array of the test \<open>tests/find_interval.cpp\<close>, line 10.\<close>

definition ten_array :: "real list" where
  "ten_array = [0, 1, 2, 3, 4, 5, 6, 7, 8, 9]"

section \<open>Interval search: correctness\<close>

lemma GetIntArrayerval_loop_bounds:
  assumes "0 \<le> len"
      and "\<forall>i j. 0 \<le> i \<and> i \<le> j \<and> j < n \<and> pred j \<longrightarrow> pred i"
      and "0 \<le> first" and "first + len \<le> n"
      and "\<forall>i. 0 \<le> i \<and> i < first \<longrightarrow> pred i"
      and "\<forall>i. first + len \<le> i \<and> i < n \<longrightarrow> \<not> pred i"
  shows "first \<le> GetIntArrayerval_loop pred first len
       \<and> GetIntArrayerval_loop pred first len \<le> first + len
       \<and> (\<forall>i. 0 \<le> i \<and> i < GetIntArrayerval_loop pred first len \<longrightarrow> pred i)
       \<and> (\<forall>i. GetIntArrayerval_loop pred first len \<le> i \<and> i < n \<longrightarrow> \<not> pred i)"
  using assms
proof (induction pred first len rule: GetIntArrayerval_loop.induct)
  case (1 pred first len)
  show ?case
  proof (cases "len > 0")
    case False
    with "1.prems" have "len = 0" by simp
    with "1.prems" show ?thesis by (simp add: GetIntArrayerval_loop.simps [of pred first 0])
  next
    case pos: True
    define half where "half = len div 2"
    define middle where "middle = first + half"
    have half_bounds: "0 \<le> half" "half < len" using pos by (auto simp: half_def)
    show ?thesis
    proof (cases "pred middle")
      case True
      have below: "\<forall>i. 0 \<le> i \<and> i < middle + 1 \<longrightarrow> pred i"
      proof (intro allI impI)
        fix i assume "0 \<le> i \<and> i < middle + 1"
        moreover have "middle < n" using half_bounds "1.prems"(4) by (simp add: middle_def)
        ultimately show "pred i" using "1.prems"(2) True by (meson zle_add1_eq_le zless_add1_eq less_imp_le order_refl)
      qed
      have IH: "middle + 1 \<le> GetIntArrayerval_loop pred (middle + 1) (len - (half + 1))
          \<and> GetIntArrayerval_loop pred (middle + 1) (len - (half + 1)) \<le> middle + 1 + (len - (half + 1))
          \<and> (\<forall>i. 0 \<le> i \<and> i < GetIntArrayerval_loop pred (middle + 1) (len - (half + 1)) \<longrightarrow> pred i)
          \<and> (\<forall>i. GetIntArrayerval_loop pred (middle + 1) (len - (half + 1)) \<le> i \<and> i < n \<longrightarrow> \<not> pred i)"
      proof (rule "1.IH"(1) [OF pos half_def middle_def True])
        show "0 \<le> len - (half + 1)" using half_bounds by simp
        show "\<forall>i j. 0 \<le> i \<and> i \<le> j \<and> j < n \<and> pred j \<longrightarrow> pred i" by (rule "1.prems"(2))
        show "0 \<le> middle + 1" using half_bounds "1.prems"(3) by (simp add: middle_def)
        show "middle + 1 + (len - (half + 1)) \<le> n" using "1.prems"(4) by (simp add: middle_def)
        show "\<forall>i. 0 \<le> i \<and> i < middle + 1 \<longrightarrow> pred i" by (rule below)
        show "\<forall>i. middle + 1 + (len - (half + 1)) \<le> i \<and> i < n \<longrightarrow> \<not> pred i"
          using "1.prems"(6) by (simp add: middle_def)
      qed
      have unfold: "GetIntArrayerval_loop pred first len
                  = GetIntArrayerval_loop pred (middle + 1) (len - (half + 1))"
        using pos True by (subst GetIntArrayerval_loop.simps) (simp add: half_def middle_def Let_def)
      show ?thesis
        unfolding unfold using IH half_bounds by (auto simp: middle_def)
    next
      case False
      have above: "\<forall>i. first + half \<le> i \<and> i < n \<longrightarrow> \<not> pred i"
      proof (intro allI impI notI)
        fix i assume a: "first + half \<le> i \<and> i < n" and p: "pred i"
        have "0 \<le> middle" using half_bounds "1.prems"(3) by (simp add: middle_def)
        with a p "1.prems"(2) have "pred middle" unfolding middle_def by blast
        with False show False by simp
      qed
      have IH: "first \<le> GetIntArrayerval_loop pred first half
          \<and> GetIntArrayerval_loop pred first half \<le> first + half
          \<and> (\<forall>i. 0 \<le> i \<and> i < GetIntArrayerval_loop pred first half \<longrightarrow> pred i)
          \<and> (\<forall>i. GetIntArrayerval_loop pred first half \<le> i \<and> i < n \<longrightarrow> \<not> pred i)"
      proof (rule "1.IH"(2) [OF pos half_def middle_def False])
        show "0 \<le> half" using half_bounds by simp
        show "\<forall>i j. 0 \<le> i \<and> i \<le> j \<and> j < n \<and> pred j \<longrightarrow> pred i" by (rule "1.prems"(2))
        show "0 \<le> first" by (rule "1.prems"(3))
        show "first + half \<le> n" using "1.prems"(4) half_bounds by simp
        show "\<forall>i. 0 \<le> i \<and> i < first \<longrightarrow> pred i" by (rule "1.prems"(5))
        show "\<forall>i. first + half \<le> i \<and> i < n \<longrightarrow> \<not> pred i" by (rule above)
      qed
      have unfold: "GetIntArrayerval_loop pred first len = GetIntArrayerval_loop pred first half"
        using pos False by (subst GetIntArrayerval_loop.simps) (simp add: half_def middle_def Let_def)
      show ?thesis
        unfolding unfold using IH half_bounds by auto
    qed
  qed
qed

text \<open>The final clamp alone keeps the result in \<open>[0, n-2]\<close>, whatever the predicate.\<close>

lemma GetIntArrayerval_range:
  "2 \<le> n \<Longrightarrow> 0 \<le> GetIntArrayerval n pred \<and> GetIntArrayerval n pred \<le> n - 2"
  by (simp add: GetIntArrayerval_def Clamp_def)

lemma GetIntArrayerval_boundary:
  assumes n: "2 \<le> n"
      and mono: "\<forall>i j. 0 \<le> i \<and> i \<le> j \<and> j < n \<and> pred j \<longrightarrow> pred i"
  shows "\<exists>c. 0 \<le> c \<and> c \<le> n \<and> (\<forall>i. 0 \<le> i \<and> i < c \<longrightarrow> pred i)
           \<and> (\<forall>i. c \<le> i \<and> i < n \<longrightarrow> \<not> pred i)
           \<and> GetIntArrayerval n pred = Clamp (c - 1) 0 (n - 2)"
proof -
  have "0 \<le> GetIntArrayerval_loop pred 0 n
       \<and> GetIntArrayerval_loop pred 0 n \<le> 0 + n
       \<and> (\<forall>i. 0 \<le> i \<and> i < GetIntArrayerval_loop pred 0 n \<longrightarrow> pred i)
       \<and> (\<forall>i. GetIntArrayerval_loop pred 0 n \<le> i \<and> i < n \<longrightarrow> \<not> pred i)"
    by (rule GetIntArrayerval_loop_bounds [where n = n]) (use n mono in auto)
  then show ?thesis
    unfolding GetIntArrayerval_def by (intro exI [of _ "GetIntArrayerval_loop pred 0 n"]) simp
qed

lemma GetIntArrayerval_none:
  assumes "2 \<le> n"
      and "\<forall>i. 0 \<le> i \<and> i < n \<longrightarrow> \<not> pred i"
  shows "GetIntArrayerval n pred = 0"
proof -
  from assms(2) have mono: "\<forall>i j. 0 \<le> i \<and> i \<le> j \<and> j < n \<and> pred j \<longrightarrow> pred i" by auto
  from GetIntArrayerval_boundary [OF assms(1) mono] obtain c where
    c: "0 \<le> c" "c \<le> n" "\<forall>i. 0 \<le> i \<and> i < c \<longrightarrow> pred i"
       "GetIntArrayerval n pred = Clamp (c - 1) 0 (n - 2)" by blast
  have "c = 0"
  proof (rule ccontr)
    assume "c \<noteq> 0"
    with c have "pred 0" "0 < n" by auto
    with assms show False by auto
  qed
  with c assms(1) show ?thesis by (simp add: Clamp_def)
qed

lemma GetIntArrayerval_last_true:
  assumes n: "2 \<le> n"
      and mono: "\<forall>i j. 0 \<le> i \<and> i \<le> j \<and> j < n \<and> pred j \<longrightarrow> pred i"
      and k: "0 \<le> k" "k < n" "pred k" "\<forall>i. k < i \<and> i < n \<longrightarrow> \<not> pred i"
  shows "GetIntArrayerval n pred = Clamp k 0 (n - 2)"
proof -
  from GetIntArrayerval_boundary [OF n mono] obtain c where
    c: "0 \<le> c" "c \<le> n" "\<forall>i. 0 \<le> i \<and> i < c \<longrightarrow> pred i"
       "\<forall>i. c \<le> i \<and> i < n \<longrightarrow> \<not> pred i"
       "GetIntArrayerval n pred = Clamp (c - 1) 0 (n - 2)" by blast
  have "k < c" using c(4) k by (meson not_le)
  moreover have "c \<le> k + 1"
  proof (rule ccontr)
    assume "\<not> c \<le> k + 1"
    then have "k < k + 1 \<and> k + 1 < n \<and> pred (k + 1)" using c k by auto
    with k(4) show False by blast
  qed
  ultimately have "c - 1 = k" by simp
  with c show ?thesis by simp
qed

lemma ten_array_upt: "ten_array = map real [0 ..< 10]"
  unfolding ten_array_def by (simp add: upt_conv_Cons)

lemma elt_ten_array: "0 \<le> k \<Longrightarrow> k < 10 \<Longrightarrow> elt ten_array k = real_of_int k"
  unfolding ten_array_upt elt_def by simp

lemma ten_array_search:
  assumes "0 \<le> k" "k < 10" "real_of_int k \<le> v" "v < real_of_int k + 1"
  shows "GetIntArrayerval 10 (\<lambda>i. elt ten_array i \<le> v) = Clamp k 0 8"
proof -
  have "GetIntArrayerval 10 (\<lambda>i. elt ten_array i \<le> v) = Clamp k 0 (10 - 2)"
  proof (rule GetIntArrayerval_last_true)
    show "\<forall>i j. 0 \<le> i \<and> i \<le> j \<and> j < 10 \<and> elt ten_array j \<le> v \<longrightarrow> elt ten_array i \<le> v"
      by (auto simp: elt_ten_array)
    show "elt ten_array k \<le> v" using assms by (simp add: elt_ten_array)
    show "\<forall>i. k < i \<and> i < 10 \<longrightarrow> \<not> elt ten_array i \<le> v"
      using assms by (auto simp: elt_ten_array)
  qed (use assms in auto)
  then show ?thesis by simp
qed

text \<open>
  Claim C2. For a size \<open>n \<ge> 2\<close> and a predicate that is true on a prefix of the indices
  \<open>0 .. n-1\<close> and false afterwards, the interval search returns the largest index at
  which the predicate holds, clamped to \<open>[0, n-2]\<close> (and 0 when it holds nowhere). On
  the sorted array \<open>{0, ..., 9}\<close> with the predicate \<open>a[i] \<le> v\<close> it returns 0 for
  \<open>v\<close> below the first element, \<open>n - 2\<close> for \<open>v\<close> at or beyond the last one, and the
  index of the containing segment otherwise, in particular at the probes \<open>k\<close>,
  \<open>k + 0.5\<close> and \<open>k - 0.5\<close> of the test.
\<close>

theorem GetIntArrayerval_largest_true_index:
  "(2 \<le> n \<and> (\<forall>i j. 0 \<le> i \<and> i \<le> j \<and> j < n \<and> pred j \<longrightarrow> pred i) \<longrightarrow>
      ((\<forall>i. 0 \<le> i \<and> i < n \<longrightarrow> \<not> pred i) \<longrightarrow> GetIntArrayerval n pred = 0) \<and>
      (\<forall>k. 0 \<le> k \<and> k < n \<and> pred k \<and> (\<forall>i. k < i \<and> i < n \<longrightarrow> \<not> pred i) \<longrightarrow>
           GetIntArrayerval n pred = Clamp k 0 (n - 2) \<and>
           0 \<le> GetIntArrayerval n pred \<and> GetIntArrayerval n pred \<le> n - 2))
   \<and> (\<forall>v. v < 0 \<longrightarrow> GetIntArrayerval 10 (\<lambda>i. elt ten_array i \<le> v) = 0)
   \<and> (\<forall>v. 9 \<le> v \<longrightarrow> GetIntArrayerval 10 (\<lambda>i. elt ten_array i \<le> v) = 10 - 2)
   \<and> (\<forall>k v. 0 \<le> k \<and> k \<le> 8 \<and> real_of_int k \<le> v \<and> v < real_of_int k + 1 \<longrightarrow>
          GetIntArrayerval 10 (\<lambda>i. elt ten_array i \<le> v) = k)
   \<and> (\<forall>k. 0 \<le> k \<and> k \<le> 8 \<longrightarrow>
          GetIntArrayerval 10 (\<lambda>i. elt ten_array i \<le> real_of_int k) = k \<and>
          GetIntArrayerval 10 (\<lambda>i. elt ten_array i \<le> real_of_int k + 1 / 2) = k \<and>
          (0 < k \<longrightarrow> GetIntArrayerval 10 (\<lambda>i. elt ten_array i \<le> real_of_int k - 1 / 2) = k - 1))"
proof -
  have general: "2 \<le> n \<and> (\<forall>i j. 0 \<le> i \<and> i \<le> j \<and> j < n \<and> pred j \<longrightarrow> pred i) \<longrightarrow>
      ((\<forall>i. 0 \<le> i \<and> i < n \<longrightarrow> \<not> pred i) \<longrightarrow> GetIntArrayerval n pred = 0) \<and>
      (\<forall>k. 0 \<le> k \<and> k < n \<and> pred k \<and> (\<forall>i. k < i \<and> i < n \<longrightarrow> \<not> pred i) \<longrightarrow>
           GetIntArrayerval n pred = Clamp k 0 (n - 2) \<and>
           0 \<le> GetIntArrayerval n pred \<and> GetIntArrayerval n pred \<le> n - 2)"
  proof (intro impI conjI allI; elim conjE)
    assume "2 \<le> n" "\<forall>i. 0 \<le> i \<and> i < n \<longrightarrow> \<not> pred i"
    then show "GetIntArrayerval n pred = 0" by (rule GetIntArrayerval_none)
  next
    fix k
    assume a: "2 \<le> n" "\<forall>i j. 0 \<le> i \<and> i \<le> j \<and> j < n \<and> pred j \<longrightarrow> pred i"
      "0 \<le> k" "k < n" "pred k" "\<forall>i. k < i \<and> i < n \<longrightarrow> \<not> pred i"
    then show r: "GetIntArrayerval n pred = Clamp k 0 (n - 2)" by (rule GetIntArrayerval_last_true)
    show "0 \<le> GetIntArrayerval n pred" "GetIntArrayerval n pred \<le> n - 2"
      using a(1,3) unfolding r by (simp_all add: Clamp_def)
  qed
  have below: "GetIntArrayerval 10 (\<lambda>i. elt ten_array i \<le> v) = 0" if "v < 0" for v
  proof (rule GetIntArrayerval_none)
    show "\<forall>i. 0 \<le> i \<and> i < 10 \<longrightarrow> \<not> elt ten_array i \<le> v"
      using that by (auto simp: elt_ten_array)
  qed simp
  have above: "GetIntArrayerval 10 (\<lambda>i. elt ten_array i \<le> v) = 10 - 2" if "9 \<le> v" for v
  proof -
    have "GetIntArrayerval 10 (\<lambda>i. elt ten_array i \<le> v) = Clamp 9 0 (10 - 2)"
    proof (rule GetIntArrayerval_last_true)
      show "\<forall>i j. 0 \<le> i \<and> i \<le> j \<and> j < 10 \<and> elt ten_array j \<le> v \<longrightarrow> elt ten_array i \<le> v"
        by (auto simp: elt_ten_array)
      show "elt ten_array 9 \<le> v" using that by (simp add: elt_ten_array)
      show "\<forall>i. 9 < i \<and> i < 10 \<longrightarrow> \<not> elt ten_array i \<le> v" by auto
    qed simp_all
    then show ?thesis by (simp add: Clamp_def)
  qed
  have inside: "GetIntArrayerval 10 (\<lambda>i. elt ten_array i \<le> v) = k"
    if "0 \<le> k" "k \<le> 8" "real_of_int k \<le> v" "v < real_of_int k + 1" for k v
    using ten_array_search [of k v] that by (simp add: Clamp_def)
  have probes: "GetIntArrayerval 10 (\<lambda>i. elt ten_array i \<le> real_of_int k) = k \<and>
          GetIntArrayerval 10 (\<lambda>i. elt ten_array i \<le> real_of_int k + 1 / 2) = k \<and>
          (0 < k \<longrightarrow> GetIntArrayerval 10 (\<lambda>i. elt ten_array i \<le> real_of_int k - 1 / 2) = k - 1)"
    if "0 \<le> k" "k \<le> 8" for k
    using inside [of k "real_of_int k"] inside [of k "real_of_int k + 1 / 2"]
      inside [of "k - 1" "real_of_int k - 1 / 2"] that by auto
  have c1: "\<forall>v. v < 0 \<longrightarrow> GetIntArrayerval 10 (\<lambda>i. elt ten_array i \<le> v) = 0"
    using below by blast
  have c2: "\<forall>v. 9 \<le> v \<longrightarrow> GetIntArrayerval 10 (\<lambda>i. elt ten_array i \<le> v) = 10 - 2"
    using above by blast
  have c3: "\<forall>k v. 0 \<le> k \<and> k \<le> 8 \<and> real_of_int k \<le> v \<and> v < real_of_int k + 1 \<longrightarrow>
          GetIntArrayerval 10 (\<lambda>i. elt ten_array i \<le> v) = k"
    using inside by blast
  have c4: "\<forall>k. 0 \<le> k \<and> k \<le> 8 \<longrightarrow>
          GetIntArrayerval 10 (\<lambda>i. elt ten_array i \<le> real_of_int k) = k \<and>
          GetIntArrayerval 10 (\<lambda>i. elt ten_array i \<le> real_of_int k + 1 / 2) = k \<and>
          (0 < k \<longrightarrow> GetIntArrayerval 10 (\<lambda>i. elt ten_array i \<le> real_of_int k - 1 / 2) = k - 1)"
    using probes by blast
  from general c1 c2 c3 c4 show ?thesis by (intro conjI)
qed

theorem GetIntArrayerval_largest_true_index_witness:
  "(2::int) \<le> 10
   \<and> GetIntArrayerval 10 (\<lambda>i. i \<le> 3) = 3
   \<and> GetIntArrayerval 10 (\<lambda>i. elt ten_array i \<le> 7 / 2) = 3"
proof -
  note T = GetIntArrayerval_largest_true_index [of 10 "\<lambda>i. i \<le> 3"]
  have h: "(2::int) \<le> 10 \<and> (\<forall>i j. 0 \<le> i \<and> i \<le> j \<and> j < 10 \<and> j \<le> (3::int) \<longrightarrow> i \<le> 3)"
    by simp
  have k: "(0::int) \<le> 3 \<and> (3::int) < 10 \<and> (3::int) \<le> 3 \<and> (\<forall>i. 3 < i \<and> i < 10 \<longrightarrow> \<not> i \<le> (3::int))"
    by simp
  from T h k have "GetIntArrayerval 10 (\<lambda>i. i \<le> 3) = Clamp 3 0 (10 - 2)" by blast
  then have a: "GetIntArrayerval 10 (\<lambda>i. i \<le> 3) = 3" by (simp add: Clamp_def)
  have p: "(0::int) \<le> 3 \<and> (3::int) \<le> 8 \<and> real_of_int 3 \<le> 7 / 2 \<and> (7 / 2 :: real) < real_of_int 3 + 1"
    by simp
  from T p have b: "GetIntArrayerval 10 (\<lambda>i. elt ten_array i \<le> 7 / 2) = 3" by blast
  from h a b show ?thesis by blast
qed

section \<open>Spline evaluation: correctness\<close>

lemma elt_nth: "0 \<le> i \<Longrightarrow> elt xs i = xs ! nat i"
  by (simp add: elt_def)

lemma strict_nodes_less:
  "sorted_wrt (<) nodes \<Longrightarrow> 0 \<le> i \<Longrightarrow> i < j \<Longrightarrow> j < int (length nodes) \<Longrightarrow> elt nodes i < elt nodes j"
  by (simp add: elt_def sorted_wrt_iff_nth_less)

lemma strict_nodes_le:
  "sorted_wrt (<) nodes \<Longrightarrow> 0 \<le> i \<Longrightarrow> i \<le> j \<Longrightarrow> j < int (length nodes) \<Longrightarrow> elt nodes i \<le> elt nodes j"
  using strict_nodes_less [of nodes i j] by (cases "i = j") auto

lemma strict_nodes_index_less:
  assumes "sorted_wrt (<) nodes" "0 \<le> i" "i < int (length nodes)" "0 \<le> j" "j < int (length nodes)"
      and "elt nodes i < elt nodes j"
  shows "i < j"
proof (rule ccontr)
  assume "\<not> i < j"
  then have "j \<le> i" by simp
  from strict_nodes_le [OF assms(1,4) this assms(3)] assms(6) show False by simp
qed

lemma Clamp_top: "2 \<le> m \<Longrightarrow> Clamp (m - 1) 0 (m - 2) = m - 2"
  by (simp add: Clamp_def)

lemma Clamp_inside: "1 \<le> c \<Longrightarrow> c < m \<Longrightarrow> Clamp (c - 1) 0 (m - 2) = c - 1"
  by (simp add: Clamp_def)

text \<open>The segment that the interval search selects for a query inside the domain.\<close>

lemma segment_index:
  assumes sorted: "sorted_wrt (<) nodes" and n: "2 \<le> length nodes"
      and dom: "hd nodes \<le> x" "x \<le> last nodes"
      and idx: "idx = GetIntArrayerval (int (length nodes)) (\<lambda>i. elt nodes i \<le> x)"
  shows "0 \<le> idx \<and> idx \<le> int (length nodes) - 2
       \<and> elt nodes idx \<le> x \<and> x \<le> elt nodes (idx + 1)
       \<and> (x < elt nodes (idx + 1) \<or> idx = int (length nodes) - 2)"
proof -
  let ?n = "int (length nodes)"
  let ?P = "\<lambda>i. elt nodes i \<le> x"
  have n2: "2 \<le> ?n" using n by simp
  have mono: "\<forall>i j. 0 \<le> i \<and> i \<le> j \<and> j < ?n \<and> ?P j \<longrightarrow> ?P i"
    using strict_nodes_le [OF sorted] by (meson order_trans)
  from GetIntArrayerval_boundary [OF n2 mono] obtain c where
    c: "0 \<le> c" "c \<le> ?n" "\<forall>i. 0 \<le> i \<and> i < c \<longrightarrow> ?P i" "\<forall>i. c \<le> i \<and> i < ?n \<longrightarrow> \<not> ?P i"
       "GetIntArrayerval ?n ?P = Clamp (c - 1) 0 (?n - 2)" by blast
  have ne: "nodes \<noteq> []" using n by auto
  have "?P 0" using dom(1) ne by (simp add: elt_def hd_conv_nth)
  with c(4) n2 have c1: "1 \<le> c" by (smt (verit))
  have lastn: "last nodes = elt nodes (?n - 1)"
    using ne n by (simp add: elt_def last_conv_nth nat_diff_distrib')
  show ?thesis
  proof (cases "c = ?n")
    case True
    then have i: "idx = ?n - 2" using c(5) idx Clamp_top [OF n2] by metis
    have "?P (?n - 2)" using c(3) True n2 by simp
    then show ?thesis using i dom(2) lastn n by simp
  next
    case False
    then have cn: "c < ?n" using c(2) by simp
    then have i: "idx = c - 1" using c(5) idx Clamp_inside [OF c1] by metis
    have "?P (c - 1)" using c(3) c1 by simp
    moreover have "\<not> ?P c" using c(4) cn by simp
    ultimately show ?thesis using i c1 cn by simp
  qed
qed


lemma nodes_domain:
  fixes nodes :: "real list"
  assumes "sorted_wrt (<) nodes" "i < length nodes"
  shows "hd nodes \<le> nodes ! i \<and> nodes ! i \<le> last nodes"
proof -
  have ne: "nodes \<noteq> []" using assms(2) by auto
  have "elt nodes 0 \<le> elt nodes (int i)"
    using assms by (intro strict_nodes_le) auto
  moreover have "elt nodes (int i) \<le> elt nodes (int (length nodes) - 1)"
    using assms by (intro strict_nodes_le) auto
  ultimately show ?thesis
    using ne assms(2) by (simp add: elt_def hd_conv_nth last_conv_nth nat_diff_distrib')
qed

lemma node_segment:
  assumes sorted: "sorted_wrt (<) nodes" and n: "2 \<le> length nodes" and i: "i < length nodes"
  shows "GetIntArrayerval (int (length nodes)) (\<lambda>j. elt nodes j \<le> nodes ! i)
       = (if i = length nodes - 1 then int (length nodes) - 2 else int i)"
proof -
  define idx where "idx = GetIntArrayerval (int (length nodes)) (\<lambda>j. elt nodes j \<le> nodes ! i)"
  have xi: "nodes ! i = elt nodes (int i)" by (simp add: elt_def)
  from nodes_domain [OF sorted i] segment_index [OF sorted n _ _ idx_def]
  have seg: "0 \<le> idx" "idx \<le> int (length nodes) - 2"
    "elt nodes idx \<le> elt nodes (int i)" "elt nodes (int i) \<le> elt nodes (idx + 1)"
    "elt nodes (int i) < elt nodes (idx + 1) \<or> idx = int (length nodes) - 2"
    unfolding xi by auto
  have low: "idx \<le> int i"
  proof (rule ccontr)
    assume "\<not> idx \<le> int i"
    then have "elt nodes (int i) < elt nodes idx"
      using seg(2) by (intro strict_nodes_less [OF sorted]) auto
    with seg(3) show False by simp
  qed
  have high: "int i \<le> idx + 1"
  proof (rule ccontr)
    assume "\<not> int i \<le> idx + 1"
    then have "elt nodes (idx + 1) < elt nodes (int i)"
      using seg(1) i by (intro strict_nodes_less [OF sorted]) auto
    with seg(4) show False by simp
  qed
  show ?thesis
  proof (cases "i = length nodes - 1")
    case True
    then have "int i = int (length nodes) - 1" using n by auto
    with low high seg(2) have "idx = int (length nodes) - 2" by simp
    with True show ?thesis by (simp add: idx_def)
  next
    case False
    have "idx = int i"
    proof (rule ccontr)
      assume "idx \<noteq> int i"
      with low high have e: "int i = idx + 1" by simp
      with seg(5) have "idx = int (length nodes) - 2" by auto
      with e False n show False by auto
    qed
    with False show ?thesis by (simp add: idx_def)
  qed
qed

lemma CatmullRom_at_segment:
  assumes "length nodes = length values" "hd nodes \<le> x" "x \<le> last nodes"
      and "GetIntArrayerval (int (length nodes)) (\<lambda>i. elt nodes i \<le> x) = idx"
  shows "CatmullRom nodes values x =
         Inr (let x0 = elt nodes idx; x1 = elt nodes (idx + 1);
                  f0 = elt values idx; f1 = elt values (idx + 1);
                  width = x1 - x0;
                  d0 = (if idx > 0 then width * (f1 - elt values (idx - 1)) / (x1 - elt nodes (idx - 1))
                        else f1 - f0);
                  d1 = (if idx + 2 < int (length nodes)
                        then width * (elt values (idx + 2) - f0) / (elt nodes (idx + 2) - x0)
                        else f1 - f0);
                  t = (x - x0) / (x1 - x0); t2 = t * t; t3 = t2 * t
              in (2 * t3 - 3 * t2 + 1) * f0 + (- 2 * t3 + 3 * t2) * f1 +
                 (t3 - 2 * t2 + t) * d0 + (t3 - t2) * d1)"
  using assms by (simp add: CatmullRom_def Let_def)

text \<open>
  In exact arithmetic, for a strictly increasing node sequence and a value sequence of
  the same length (at least 2), \<open>CatmullRom\<close> returns 0 for every \<open>x\<close> outside
  \<open>[nodes.front(), nodes.back()]\<close>, and at every node \<open>nodes[i]\<close> it returns exactly
  \<open>values[i]\<close>. In binary32 this needs the segment's derivative estimates to be finite:
  section \<open>Spline evaluation in binary32: the values at the nodes\<close>.
\<close>

lemma CatmullRom_zero_outside_exact_at_nodes:
  assumes sorted: "sorted_wrt (<) nodes" and len: "length values = length nodes"
      and n: "2 \<le> length nodes"
  shows "(\<not> (hd nodes \<le> x \<and> x \<le> last nodes) \<longrightarrow> CatmullRom nodes values x = Inr 0)
       \<and> (\<forall>i < length nodes. CatmullRom nodes values (nodes ! i) = Inr (values ! i))"
proof (intro conjI impI allI)
  assume "\<not> (hd nodes \<le> x \<and> x \<le> last nodes)"
  then show "CatmullRom nodes values x = Inr 0"
    using len by (auto simp: CatmullRom_def)
next
  fix i assume i: "i < length nodes"
  note dom = nodes_domain [OF sorted i]
  note seg = node_segment [OF sorted n i]
  show "CatmullRom nodes values (nodes ! i) = Inr (values ! i)"
  proof (cases "i = length nodes - 1")
    case True
    define k where "k = int (length nodes) - 2"
    have k: "GetIntArrayerval (int (length nodes)) (\<lambda>j. elt nodes j \<le> nodes ! i) = k"
      using seg True by (simp add: k_def)
    have k1: "k + 1 = int i" using True n by (auto simp: k_def)
    have "elt nodes k < elt nodes (int i)"
      using n i True by (intro strict_nodes_less [OF sorted]) (auto simp: k_def)
    then have ne: "nodes ! i - elt nodes k \<noteq> 0" by (simp add: elt_def)
    have t1: "(nodes ! i - elt nodes k) / (elt nodes (k + 1) - elt nodes k) = 1"
      using ne unfolding k1 by (simp add: elt_def)
    show ?thesis
      unfolding CatmullRom_at_segment [OF len [symmetric] conjunct1 [OF dom] conjunct2 [OF dom] k] Let_def t1
      by (simp add: k1 elt_def)
  next
    case False
    have k: "GetIntArrayerval (int (length nodes)) (\<lambda>j. elt nodes j \<le> nodes ! i) = int i"
      using seg False by simp
    have t0: "nodes ! i - elt nodes (int i) = 0" by (simp add: elt_def)
    show ?thesis
      unfolding CatmullRom_at_segment [OF len [symmetric] conjunct1 [OF dom] conjunct2 [OF dom] k] Let_def t0
      by (simp add: elt_def)
  qed
qed

lemma CatmullRom_zero_outside_exact_at_nodes_witness:
  "sorted_wrt (<) [0, 1, 2, 3 :: real] \<and> length [0, 1, 0, 1 :: real] = length [0, 1, 2, 3 :: real]
   \<and> 2 \<le> length [0, 1, 2, 3 :: real] \<and> \<not> (hd [0, 1, 2, 3 :: real] \<le> 4 \<and> (4 :: real) \<le> last [0, 1, 2, 3])
   \<and> CatmullRom [0, 1, 2, 3] [0, 1, 0, 1] 4 = Inr 0
   \<and> CatmullRom [0, 1, 2, 3] [0, 1, 0, 1] 3 = Inr 1"
proof -
  have h: "sorted_wrt (<) [0, 1, 2, 3 :: real]" "length [0, 1, 0, 1 :: real] = length [0, 1, 2, 3 :: real]"
    "2 \<le> length [0, 1, 2, 3 :: real]" by simp_all
  note T = CatmullRom_zero_outside_exact_at_nodes [OF h, of 4]
  from T have a: "CatmullRom [0, 1, 2, 3] [0, 1, 0, 1] 4 = Inr 0" by simp
  from T have "\<forall>i < length [0, 1, 2, 3 :: real].
      CatmullRom [0, 1, 2, 3] [0, 1, 0, 1] ([0, 1, 2, 3] ! i) = Inr ([0, 1, 0, 1] ! i)" by (rule conjunct2)
  then have "CatmullRom [0, 1, 2, 3] [0, 1, 0, 1] ([0, 1, 2, 3] ! 3) = Inr ([0, 1, 0, 1] ! 3)"
    by (rule allE [of _ 3]) simp
  then have b: "CatmullRom [0, 1, 2, 3] [0, 1, 0, 1] 3 = Inr 1" by simp
  from h a b show ?thesis by simp
qed

section \<open>Spline weights: correctness\<close>

lemma CatmullRomWeights_at_segment:
  assumes w: "4 \<le> length weights" and dom: "hd nodes \<le> x" "x \<le> last nodes"
      and idx: "GetIntArrayerval (int (length nodes)) (\<lambda>i. elt nodes i \<le> x) = idx"
      and x0: "x0 = elt nodes idx" and x1: "x1 = elt nodes (idx + 1)"
      and t: "t = (x - x0) / (x1 - x0)"
  shows "\<exists>ws. CatmullRomWeights nodes x offset weights = Inr (True, idx - 1, ws)
       \<and> length ws = length weights
       \<and> ws ! 0 = (if idx > 0 then - ((t * t * t - 2 * (t * t) + t) * (x1 - x0) / (x1 - elt nodes (idx - 1)))
                   else 0)
       \<and> ws ! 1 = 2 * (t * t * t) - 3 * (t * t) + 1
                 - (if idx > 0 then 0 else t * t * t - 2 * (t * t) + t)
                 - (if idx + 2 < int (length nodes)
                    then (t * t * t - t * t) * (x1 - x0) / (elt nodes (idx + 2) - x0)
                    else t * t * t - t * t)
       \<and> ws ! 2 = - 2 * (t * t * t) + 3 * (t * t)
                 + (if idx > 0 then (t * t * t - 2 * (t * t) + t) * (x1 - x0) / (x1 - elt nodes (idx - 1))
                    else t * t * t - 2 * (t * t) + t)
                 + (if idx + 2 < int (length nodes) then 0 else t * t * t - t * t)
       \<and> ws ! 3 = (if idx + 2 < int (length nodes)
                   then (t * t * t - t * t) * (x1 - x0) / (elt nodes (idx + 2) - x0)
                   else 0)"
proof -
  have t': "(x - elt nodes idx) / (elt nodes (idx + 1) - elt nodes idx) = t"
    using t x0 x1 by simp
  have l: "0 < length weights" "1 < length weights" "2 < length weights" "3 < length weights"
    using w by auto
  show ?thesis
    using dom l unfolding CatmullRomWeights_def idx Let_def t' x0 x1
    by (simp add: nth_list_update)
qed


text \<open>
  In exact arithmetic, for a strictly increasing node sequence of length at least 2 and
  any query \<open>x\<close>, \<open>CatmullRomWeights\<close> returns true exactly when \<open>x\<close> lies in
  \<open>[nodes.front(), nodes.back()]\<close>; when it returns false the weight buffer (and the
  offset) are untouched; when it returns true the four weights sum to 1.
\<close>

lemma CatmullRomWeights_true_iff_in_domain_sum_one:
  assumes "sorted_wrt (<) nodes" "2 \<le> length nodes" "4 \<le> length weights"
  shows "\<exists>ok offset' weights'.
           CatmullRomWeights nodes x offset weights = Inr (ok, offset', weights')
         \<and> (ok \<longleftrightarrow> hd nodes \<le> x \<and> x \<le> last nodes)
         \<and> (\<not> ok \<longrightarrow> weights' = weights \<and> offset' = offset)
         \<and> (ok \<longrightarrow> weights' ! 0 + weights' ! 1 + weights' ! 2 + weights' ! 3 = 1)"
proof (cases "hd nodes \<le> x \<and> x \<le> last nodes")
  case False
  then have "CatmullRomWeights nodes x offset weights = Inr (False, offset, weights)"
    using assms(3) by (auto simp: CatmullRomWeights_def)
  with False show ?thesis
    by (intro exI [of _ False] exI [of _ offset] exI [of _ weights]) simp
next
  case True
  define idx where "idx = GetIntArrayerval (int (length nodes)) (\<lambda>i. elt nodes i \<le> x)"
  define t where "t = (x - elt nodes idx) / (elt nodes (idx + 1) - elt nodes idx)"
  from CatmullRomWeights_at_segment [OF assms(3) conjunct1 [OF True] conjunct2 [OF True]
      idx_def [symmetric] refl refl t_def, of offset]
  obtain ws where ws: "CatmullRomWeights nodes x offset weights = Inr (True, idx - 1, ws)"
    and e: "ws ! 0 = (if idx > 0 then - ((t * t * t - 2 * (t * t) + t) * (elt nodes (idx + 1) - elt nodes idx) / (elt nodes (idx + 1) - elt nodes (idx - 1)))
                   else 0)"
       "ws ! 1 = 2 * (t * t * t) - 3 * (t * t) + 1
                 - (if idx > 0 then 0 else t * t * t - 2 * (t * t) + t)
                 - (if idx + 2 < int (length nodes)
                    then (t * t * t - t * t) * (elt nodes (idx + 1) - elt nodes idx) / (elt nodes (idx + 2) - elt nodes idx)
                    else t * t * t - t * t)"
       "ws ! 2 = - 2 * (t * t * t) + 3 * (t * t)
                 + (if idx > 0 then (t * t * t - 2 * (t * t) + t) * (elt nodes (idx + 1) - elt nodes idx) / (elt nodes (idx + 1) - elt nodes (idx - 1))
                    else t * t * t - 2 * (t * t) + t)
                 + (if idx + 2 < int (length nodes) then 0 else t * t * t - t * t)"
       "ws ! 3 = (if idx + 2 < int (length nodes)
                   then (t * t * t - t * t) * (elt nodes (idx + 1) - elt nodes idx) / (elt nodes (idx + 2) - elt nodes idx)
                   else 0)"
    by blast
  have s: "ws ! 0 + ws ! 1 + ws ! 2 + ws ! 3 = 1"
    unfolding e by (cases "idx > 0"; cases "idx + 2 < int (length nodes)"; simp)
  from ws s True show ?thesis
    by (intro exI [of _ True] exI [of _ "idx - 1"] exI [of _ ws]) simp
qed

lemma CatmullRomWeights_true_iff_in_domain_sum_one_witness:
  "sorted_wrt (<) [0, 1, 2, 3 :: real] \<and> 2 \<le> length [0, 1, 2, 3 :: real]
   \<and> 4 \<le> length [0, 0, 0, 0 :: real]
   \<and> (\<exists>ok offset' weights'.
           CatmullRomWeights [0, 1, 2, 3] (3 / 2) 0 [0, 0, 0, 0] = Inr (ok, offset', weights')
         \<and> (ok \<longleftrightarrow> hd [0, 1, 2, 3] \<le> (3 / 2 :: real) \<and> (3 / 2 :: real) \<le> last [0, 1, 2, 3])
         \<and> (\<not> ok \<longrightarrow> weights' = [0, 0, 0, 0] \<and> offset' = 0)
         \<and> (ok \<longrightarrow> weights' ! 0 + weights' ! 1 + weights' ! 2 + weights' ! 3 = 1))"
proof -
  have h: "sorted_wrt (<) [0, 1, 2, 3 :: real]" "2 \<le> length [0, 1, 2, 3 :: real]"
    "4 \<le> length [0, 0, 0, 0 :: real]" by simp_all
  from h CatmullRomWeights_true_iff_in_domain_sum_one [OF h, of "3 / 2" 0] show ?thesis
    by (intro conjI)
qed








lemma table_index_in_range:
  fixes r c n m :: int
  assumes "0 \<le> r" "r \<le> n - 1" "0 \<le> c" "c < m"
  shows "0 \<le> r * m + c \<and> r * m + c < n * m"
proof -
  have m: "0 \<le> m" using assms by simp
  have "r * m + c < r * m + m" using assms by simp
  also have "\<dots> = (r + 1) * m" by (simp add: algebra_simps)
  also have "\<dots> \<le> n * m" using assms(2) m by (intro mult_right_mono) auto
  finally have "r * m + c < n * m" .
  moreover have "0 \<le> r * m" using assms(1) m by simp
  ultimately show ?thesis using assms(3) by simp
qed

lemma interpolate_reads:
  assumes "\<forall>j < 4. weights ! j \<noteq> 0 \<longrightarrow> read array ((offset + int j) * n2 + idx) \<noteq> None"
  shows "interpolate weights offset n2 array idx \<noteq> None"
proof -
  have "weights ! j \<noteq> 0 \<longrightarrow> (\<exists>e. read array ((offset + int j) * n2 + idx) = Some e)"
    if "j < 4" for j using assms that by auto
  from this [of 0] this [of 1] this [of 2] this [of 3] show ?thesis
    by (auto simp: interpolate_def)
qed

text \<open>
  Claim C10. For a strictly increasing node sequence of length \<open>n \<ge> 2\<close> and \<open>x\<close> in
  \<open>[nodes.front(), nodes.back()]\<close>, \<open>CatmullRomWeights\<close> produces an offset in
  \<open>[-1, n-3]\<close>, with \<open>weights[0] = 0\<close> when the offset is \<open>-1\<close> and \<open>weights[3] = 0\<close>
  when \<open>offset + 3 = n\<close>. So every index \<open>offset + j\<close> with \<open>weights[j] \<noteq> 0\<close> lies in
  \<open>[0, n-1]\<close>, and neither the weighted evaluation of a value sequence of length \<open>n\<close>
  nor the \<open>interpolate\<close> helper of the 2D sampler, on a table of \<open>n * n2\<close> entries and
  a column below \<open>n2\<close>, reads out of bounds.
\<close>

theorem CatmullRomWeights_offset_and_reads_in_bounds:
  assumes sorted: "sorted_wrt (<) nodes" and n: "2 \<le> length nodes"
      and dom: "hd nodes \<le> x" "x \<le> last nodes" and w: "4 \<le> length weights"
  shows "\<exists>offset' weights'.
           CatmullRomWeights nodes x offset weights = Inr (True, offset', weights')
         \<and> - 1 \<le> offset' \<and> offset' \<le> int (length nodes) - 3
         \<and> (offset' = - 1 \<longrightarrow> weights' ! 0 = 0)
         \<and> (offset' + 3 = int (length nodes) \<longrightarrow> weights' ! 3 = 0)
         \<and> (\<forall>j < 4. weights' ! j \<noteq> 0 \<longrightarrow>
                0 \<le> offset' + int j \<and> offset' + int j \<le> int (length nodes) - 1)
         \<and> (\<forall>values. length values = length nodes \<longrightarrow>
                weighted_eval values offset' weights' \<noteq> None)
         \<and> (\<forall>array n2 idx. length array = length nodes * n2 \<and> idx < n2 \<longrightarrow>
                interpolate weights' offset' (int n2) array (int idx) \<noteq> None)"
proof -
  define idx where "idx = GetIntArrayerval (int (length nodes)) (\<lambda>i. elt nodes i \<le> x)"
  from GetIntArrayerval_range [of "int (length nodes)" "\<lambda>i. elt nodes i \<le> x"] n
  have seg: "0 \<le> idx" "idx \<le> int (length nodes) - 2" unfolding idx_def by auto
  from CatmullRomWeights_at_segment [OF w dom idx_def [symmetric] refl refl refl, of offset]
  obtain ws where ws: "CatmullRomWeights nodes x offset weights = Inr (True, idx - 1, ws)"
    and e0: "\<not> idx > 0 \<longrightarrow> ws ! 0 = 0" and e3: "\<not> idx + 2 < int (length nodes) \<longrightarrow> ws ! 3 = 0"
    by auto
  have idxs: "0 \<le> idx - 1 + int j \<and> idx - 1 + int j \<le> int (length nodes) - 1"
    if "j < 4" "ws ! j \<noteq> 0" for j
  proof -
    from that(1) have "j = 0 \<or> j = 1 \<or> j = 2 \<or> j = 3" by auto
    then show ?thesis using that(2) e0 e3 seg by auto
  qed
  have ev: "weighted_eval values (idx - 1) ws \<noteq> None" if "length values = length nodes" for "values"
  proof -
    have "weighted_term values (idx - 1) ws j \<noteq> None" if "j < 4" for j
      using idxs [OF that] \<open>length values = length nodes\<close>
      by (auto simp: weighted_term_def read_def)
    from this [of 0] this [of 1] this [of 2] this [of 3] show ?thesis
      by (auto simp: weighted_eval_def)
  qed
  have ip: "interpolate ws (idx - 1) (int n2) array (int i) \<noteq> None"
    if "length array = length nodes * n2" "i < n2" for array n2 i
  proof (rule interpolate_reads, intro allI impI)
    fix j :: nat assume "j < 4" "ws ! j \<noteq> 0"
    from idxs [OF this] that(2)
    have "0 \<le> (idx - 1 + int j) * int n2 + int i
        \<and> (idx - 1 + int j) * int n2 + int i < int (length nodes) * int n2"
      by (intro table_index_in_range) auto
    then show "read array ((idx - 1 + int j) * int n2 + int i) \<noteq> None"
      using that(1) by (simp add: read_def)
  qed
  show ?thesis
  proof (intro exI [of _ "idx - 1"] exI [of _ ws] conjI)
    show "CatmullRomWeights nodes x offset weights = Inr (True, idx - 1, ws)" by (rule ws)
    show "- 1 \<le> idx - 1" "idx - 1 \<le> int (length nodes) - 3" using seg by simp_all
    show "idx - 1 = - 1 \<longrightarrow> ws ! 0 = 0" using e0 by simp
    show "idx - 1 + 3 = int (length nodes) \<longrightarrow> ws ! 3 = 0" using e3 by simp
    show "\<forall>j<4. ws ! j \<noteq> 0 \<longrightarrow> 0 \<le> idx - 1 + int j \<and> idx - 1 + int j \<le> int (length nodes) - 1"
      using idxs by blast
    show "\<forall>values. length values = length nodes \<longrightarrow> weighted_eval values (idx - 1) ws \<noteq> None"
      using ev by blast
    show "\<forall>array n2 i. length array = length nodes * n2 \<and> i < n2 \<longrightarrow>
            interpolate ws (idx - 1) (int n2) array (int i) \<noteq> None"
      using ip by blast
  qed
qed

theorem CatmullRomWeights_offset_and_reads_in_bounds_witness:
  "sorted_wrt (<) [0, 1, 2, 3 :: real] \<and> 2 \<le> length [0, 1, 2, 3 :: real]
   \<and> hd [0, 1, 2, 3] \<le> (1 / 2 :: real) \<and> (1 / 2 :: real) \<le> last [0, 1, 2, 3]
   \<and> 4 \<le> length [0, 0, 0, 0 :: real]
   \<and> (\<exists>offset' weights'.
           CatmullRomWeights [0, 1, 2, 3] (1 / 2) 0 [0, 0, 0, 0] = Inr (True, offset', weights')
         \<and> - 1 \<le> offset' \<and> offset' \<le> int (length [0, 1, 2, 3 :: real]) - 3
         \<and> (offset' = - 1 \<longrightarrow> weights' ! 0 = 0)
         \<and> (\<forall>j < 4. weights' ! j \<noteq> 0 \<longrightarrow>
                0 \<le> offset' + int j \<and> offset' + int j \<le> int (length [0, 1, 2, 3 :: real]) - 1)
         \<and> weighted_eval [0, 1, 0, 1] offset' weights' \<noteq> None
         \<and> interpolate weights' offset' (int 2) [0, 1, 1, 2, 0, 3, 2, 1] (int 1) \<noteq> None)"
proof -
  have h: "sorted_wrt (<) [0, 1, 2, 3 :: real]" "2 \<le> length [0, 1, 2, 3 :: real]"
    "hd [0, 1, 2, 3] \<le> (1 / 2 :: real)" "(1 / 2 :: real) \<le> last [0, 1, 2, 3]"
    "4 \<le> length [0, 0, 0, 0 :: real]" by simp_all
  from CatmullRomWeights_offset_and_reads_in_bounds [OF h, of 0]
  have "\<exists>offset' weights'.
           CatmullRomWeights [0, 1, 2, 3] (1 / 2) 0 [0, 0, 0, 0] = Inr (True, offset', weights')
         \<and> - 1 \<le> offset' \<and> offset' \<le> int (length [0, 1, 2, 3 :: real]) - 3
         \<and> (offset' = - 1 \<longrightarrow> weights' ! 0 = 0)
         \<and> (\<forall>j < 4. weights' ! j \<noteq> 0 \<longrightarrow>
                0 \<le> offset' + int j \<and> offset' + int j \<le> int (length [0, 1, 2, 3 :: real]) - 1)
         \<and> (\<forall>values. length values = length [0, 1, 2, 3 :: real] \<longrightarrow>
                weighted_eval values offset' weights' \<noteq> None)
         \<and> (\<forall>array n2 idx. length array = length [0, 1, 2, 3 :: real] * n2 \<and> idx < n2 \<longrightarrow>
                interpolate weights' offset' (int n2) array (int idx) \<noteq> None)"
    by blast
  then obtain offset' weights' where
    a: "CatmullRomWeights [0, 1, 2, 3] (1 / 2) 0 [0, 0, 0, 0] = Inr (True, offset', weights')"
       "- 1 \<le> offset'" "offset' \<le> int (length [0, 1, 2, 3 :: real]) - 3"
       "offset' = - 1 \<longrightarrow> weights' ! 0 = 0"
       "\<forall>j < 4. weights' ! j \<noteq> 0 \<longrightarrow>
                0 \<le> offset' + int j \<and> offset' + int j \<le> int (length [0, 1, 2, 3 :: real]) - 1"
    and b: "\<forall>values. length values = length [0, 1, 2, 3 :: real] \<longrightarrow>
                weighted_eval values offset' weights' \<noteq> None"
    and c: "\<forall>array n2 idx. length array = length [0, 1, 2, 3 :: real] * n2 \<and> idx < n2 \<longrightarrow>
                interpolate weights' offset' (int n2) array (int idx) \<noteq> None"
    by blast
  from b have b': "weighted_eval [0, 1, 0, 1] offset' weights' \<noteq> None" by simp
  have "length [0, 1, 1, 2, 0, 3, 2, 1 :: real] = length [0, 1, 2, 3 :: real] * 2 \<and> (1 :: nat) < 2"
    by simp
  with c have c': "interpolate weights' offset' (int 2) [0, 1, 1, 2, 0, 3, 2, 1] (int 1) \<noteq> None"
    by blast
  from h a b' c' show ?thesis by blast
qed

section \<open>Spline integration: correctness\<close>

lemma IntegrateCatmullRom_body_eq:
  "IntegrateCatmullRom_body x values i (sm, cdf) =
     (sm + ((segment_d0 x values i - segment_d1 x values i) / 12 + (values ! i + values ! (i + 1)) / 2)
             * (x ! (i + 1) - x ! i),
      cdf[i + 1 := sm + ((segment_d0 x values i - segment_d1 x values i) / 12
                          + (values ! i + values ! (i + 1)) / 2) * (x ! (i + 1) - x ! i)])"
  by (simp add: IntegrateCatmullRom_body_def segment_d0_def segment_d1_def Let_def)

lemma IntegrateCatmullRom_prefix:
  assumes "k < length cdf"
  shows "length (snd (fold (IntegrateCatmullRom_body x values) [0 ..< k] (0, cdf[0 := 0]))) = length cdf
       \<and> snd (fold (IntegrateCatmullRom_body x values) [0 ..< k] (0, cdf[0 := 0])) ! 0 = 0
       \<and> (\<forall>i < k. snd (fold (IntegrateCatmullRom_body x values) [0 ..< k] (0, cdf[0 := 0])) ! (i + 1)
              = snd (fold (IntegrateCatmullRom_body x values) [0 ..< k] (0, cdf[0 := 0])) ! i
                + ((segment_d0 x values i - segment_d1 x values i) / 12
                   + (values ! i + values ! (i + 1)) / 2) * (x ! (i + 1) - x ! i))
       \<and> fst (fold (IntegrateCatmullRom_body x values) [0 ..< k] (0, cdf[0 := 0]))
           = snd (fold (IntegrateCatmullRom_body x values) [0 ..< k] (0, cdf[0 := 0])) ! k"
  using assms
proof (induction k)
  case 0
  then show ?case by simp
next
  case (Suc k)
  obtain sm c where s: "fold (IntegrateCatmullRom_body x values) [0 ..< k] (0, cdf[0 := 0]) = (sm, c)"
    by (cases "fold (IntegrateCatmullRom_body x values) [0 ..< k] (0, cdf[0 := 0])")
  from Suc have IH: "length c = length cdf" "c ! 0 = 0"
    "\<forall>i < k. c ! (i + 1) = c ! i + ((segment_d0 x values i - segment_d1 x values i) / 12
                   + (values ! i + values ! (i + 1)) / 2) * (x ! (i + 1) - x ! i)"
    "sm = c ! k"
    unfolding s by simp_all
  have step: "fold (IntegrateCatmullRom_body x values) [0 ..< Suc k] (0, cdf[0 := 0])
            = IntegrateCatmullRom_body x values k (sm, c)"
    by (simp add: s)
  show ?case
    unfolding step IntegrateCatmullRom_body_eq
    using IH Suc.prems by (auto simp: nth_list_update less_Suc_eq)
qed

text \<open>
  Claim C3. For a strictly increasing node sequence \<open>x\<close> and a value sequence of the same
  length \<open>n \<ge> 2\<close> (and a \<open>cdf\<close> buffer of that length), \<open>IntegrateCatmullRom\<close> writes
  \<open>cdf[0] = 0\<close> and, for each segment \<open>i\<close> from 0 to \<open>n - 2\<close>,
  \<open>cdf[i+1] = cdf[i] + ((d0 - d1) / 12 + (f0 + f1) / 2) * (x[i+1] - x[i])\<close> with the
  finite-difference derivatives \<open>d0\<close>, \<open>d1\<close> of segment \<open>i\<close>; it returns the total
  integral, which is \<open>cdf[n-1]\<close>.
\<close>

theorem IntegrateCatmullRom_running_integral:
  assumes "sorted_wrt (<) x" "length values = length x" "2 \<le> length x" "length cdf = length x"
  shows "\<exists>total cdf'.
           IntegrateCatmullRom x values cdf = Inr (total, cdf')
         \<and> length cdf' = length x
         \<and> cdf' ! 0 = 0
         \<and> (\<forall>i. i + 1 < length x \<longrightarrow>
                cdf' ! (i + 1) = cdf' ! i + ((segment_d0 x values i - segment_d1 x values i) / 12
                     + (values ! i + values ! (i + 1)) / 2) * (x ! (i + 1) - x ! i))
         \<and> total = cdf' ! (length x - 1)"
proof -
  obtain total c where s:
    "fold (IntegrateCatmullRom_body x values) [0 ..< length x - 1] (0, cdf[0 := 0]) = (total, c)"
    by (cases "fold (IntegrateCatmullRom_body x values) [0 ..< length x - 1] (0, cdf[0 := 0])")
  have k: "length x - 1 < length cdf" using assms by simp
  from IntegrateCatmullRom_prefix [OF k, of x "values"]
  have p: "length c = length cdf" "c ! 0 = 0"
    "\<forall>i < length x - 1. c ! (i + 1) = c ! i + ((segment_d0 x values i - segment_d1 x values i) / 12
                   + (values ! i + values ! (i + 1)) / 2) * (x ! (i + 1) - x ! i)"
    "total = c ! (length x - 1)"
    unfolding s by simp_all
  have r: "IntegrateCatmullRom x values cdf = Inr (total, c)"
    unfolding IntegrateCatmullRom_def s using assms(2) by simp
  from p(3) have p3: "\<forall>i. i + 1 < length x \<longrightarrow>
                c ! (i + 1) = c ! i + ((segment_d0 x values i - segment_d1 x values i) / 12
                     + (values ! i + values ! (i + 1)) / 2) * (x ! (i + 1) - x ! i)"
    by (simp add: less_diff_conv)
  from r p(1,2,4) p3 assms(4) show ?thesis
    by (intro exI [of _ total] exI [of _ c]) simp
qed

text \<open>The cdf of the boundary scenario of the spec: nodes \<open>{0,1,2,3}\<close>, values \<open>{0,1,0,1}\<close>.\<close>

lemma example_cdf:
  "IntegrateCatmullRom [0, 1, 2, 3] [0, 1, 0, 1] [0, 0, 0, 0] = Inr (3 / 2, [0, 7 / 12, 13 / 12, 3 / 2])"
  by (simp add: IntegrateCatmullRom_def IntegrateCatmullRom_body_def Let_def upt_conv_Cons)

theorem IntegrateCatmullRom_running_integral_witness:
  "sorted_wrt (<) [0, 1, 2, 3 :: real] \<and> length [0, 1, 0, 1 :: real] = length [0, 1, 2, 3 :: real]
   \<and> 2 \<le> length [0, 1, 2, 3 :: real] \<and> length [0, 0, 0, 0 :: real] = length [0, 1, 2, 3 :: real]
   \<and> (\<exists>total cdf'.
           IntegrateCatmullRom [0, 1, 2, 3] [0, 1, 0, 1] [0, 0, 0, 0] = Inr (total, cdf')
         \<and> cdf' ! 0 = 0 \<and> total = cdf' ! 3)"
proof -
  have h: "sorted_wrt (<) [0, 1, 2, 3 :: real]" "length [0, 1, 0, 1 :: real] = length [0, 1, 2, 3 :: real]"
    "2 \<le> length [0, 1, 2, 3 :: real]" "length [0, 0, 0, 0 :: real] = length [0, 1, 2, 3 :: real]"
    by simp_all
  from IntegrateCatmullRom_running_integral [OF h]
  obtain total cdf' where
    r: "IntegrateCatmullRom [0, 1, 2, 3] [0, 1, 0, 1] [0, 0, 0, 0] = Inr (total, cdf')"
       "cdf' ! 0 = 0" "total = cdf' ! (length [0, 1, 2, 3 :: real] - 1)"
    by blast
  have "length [0, 1, 2, 3 :: real] - 1 = 3" by simp
  with r(3) have "total = cdf' ! 3" by metis
  with r(1,2) have "\<exists>total cdf'.
           IntegrateCatmullRom [0, 1, 2, 3] [0, 1, 0, 1] [0, 0, 0, 0] = Inr (total, cdf')
         \<and> cdf' ! 0 = 0 \<and> total = cdf' ! 3"
    by blast
  with h show ?thesis by (intro conjI)
qed

section \<open>Fourier sampling: the single-coefficient series\<close>

lemma SampleFourier_eval_single: "SampleFourier_eval [c] recip u phi = (c * phi - u * c * pi, c)"
  by (simp add: SampleFourier_eval_def Pi_def Let_def)

lemma SampleFourier_loop_single:
  assumes "c \<noteq> 0"
  shows "SampleFourier_loop [c] recip u a b phi =
     (let F = c * phi - u * c * pi;
          a' = (if F > 0 then a else phi);
          b' = (if F > 0 then phi else b)
      in if \<bar>F\<bar> < 1 / 1000000 \<or> b' - a' < 1 / 1000000 then Some (phi, c)
         else SampleFourier_loop [c] recip u a' b'
                (if \<not> (u * pi > a' \<and> u * pi < b') then (1 / 2) * (a' + b') else u * pi))"
proof -
  have newton: "phi - (c * phi - u * c * pi) / c = u * pi"
    using assms by (simp add: field_simps)
  show ?thesis
    by (subst SampleFourier_loop.simps)
       (simp add: SampleFourier_eval_single fdiv_def assms newton Let_def)
qed

text \<open>
  With one coefficient the Newton step lands on \<open>u * pi\<close>, the root of \<open>F\<close>: the loop
  either stops there, or the step left the bracket and the bracket is halved. So the
  loop returns after at most \<open>k + 1\<close> rounds, \<open>k\<close> bounding the width of the bracket.
\<close>

lemma SampleFourier_loop_single_returns:
  assumes c: "c \<noteq> 0"
  shows "a < phi \<Longrightarrow> phi < b \<Longrightarrow> phi = u * pi \<or> phi = (1 / 2) * (a + b) \<Longrightarrow>
         b - a < (2 / 1000000) * 2 ^ k \<Longrightarrow>
         \<exists>phi'. SampleFourier_loop [c] recip u a b phi = Some (phi', c) \<and> a < phi' \<and> phi' < b"
proof (induction k arbitrary: a b phi)
  case 0
  show ?case
  proof (cases "phi = u * pi")
    case True
    then show ?thesis
      using 0 by (subst SampleFourier_loop_single [OF c]) (simp add: Let_def)
  next
    case False
    with 0 have mid: "phi = (1 / 2) * (a + b)" by simp
    have "b - a < 2 / 1000000" using 0(4) by simp
    then have "phi - a < 1 / 1000000" "b - phi < 1 / 1000000" unfolding mid by argo+
    then show ?thesis
      using 0(1,2) by (subst SampleFourier_loop_single [OF c]) (simp add: Let_def)
  qed
next
  case (Suc k)
  show ?case
  proof (cases "phi = u * pi")
    case True
    then show ?thesis
      using Suc.prems by (subst SampleFourier_loop_single [OF c]) (simp add: Let_def)
  next
    case False
    with Suc.prems have mid: "phi = (1 / 2) * (a + b)" by simp
    define F where "F = c * phi - u * c * pi"
    define a' where "a' = (if F > 0 then a else phi)"
    define b' where "b' = (if F > 0 then phi else b)"
    define nxt where "nxt = (if \<not> (u * pi > a' \<and> u * pi < b') then (1 / 2) * (a' + b') else u * pi)"
    have unfold: "SampleFourier_loop [c] recip u a b phi =
        (if \<bar>F\<bar> < 1 / 1000000 \<or> b' - a' < 1 / 1000000 then Some (phi, c)
         else SampleFourier_loop [c] recip u a' b' nxt)"
      by (subst SampleFourier_loop_single [OF c]) (simp add: Let_def F_def a'_def b'_def nxt_def)
    have br: "a \<le> a'" "b' \<le> b" "a' < b'" using Suc.prems(1,2) by (auto simp: a'_def b'_def)
    have "b - a < 2 * ((2 / 1000000) * 2 ^ k)" using Suc.prems(4) by simp
    then have "phi - a < (2 / 1000000) * 2 ^ k" "b - phi < (2 / 1000000) * 2 ^ k"
      unfolding mid by argo+
    then have width: "b' - a' < (2 / 1000000) * 2 ^ k"
      unfolding a'_def b'_def by simp
    have nxt: "a' < nxt" "nxt < b'" "nxt = u * pi \<or> nxt = (1 / 2) * (a' + b')"
      using br(3) by (auto simp: nxt_def)
    show ?thesis
    proof (cases "\<bar>F\<bar> < 1 / 1000000 \<or> b' - a' < 1 / 1000000")
      case True
      then show ?thesis unfolding unfold using Suc.prems(1,2) by simp
    next
      case False
      from Suc.IH [OF nxt(1,2,3) width] obtain phi' where
        "SampleFourier_loop [c] recip u a' b' nxt = Some (phi', c)" "a' < phi'" "phi' < b'" by blast
      then show ?thesis unfolding unfold using False br by auto
    qed
  qed
qed

text \<open>
  Claim C8. For a Fourier series with the single coefficient \<open>a_0 = c\<close>, \<open>c \<noteq> 0\<close>, and
  every \<open>u\<close> in \<open>[0, 1)\<close>, \<open>SampleFourier\<close> returns: its loop reaches the \<open>break\<close>, the
  returned series value is \<open>c\<close>, the written \<open>phi\<close> lies in \<open>[0, 2 pi)\<close> and the written
  PDF is the constant \<open>1 / (2 pi)\<close>.
\<close>

theorem SampleFourier_single_coefficient:
  assumes c: "c \<noteq> 0" and u: "0 \<le> u" "u < 1"
  shows "\<exists>phi. SampleFourier [c] recip u = Some (c, 1 / (2 * pi), phi) \<and> 0 \<le> phi \<and> phi < 2 * pi"
proof -
  define u' where "u' = (if u \<ge> 1 / 2 then 1 - 2 * (u - 1 / 2) else u * 2)"
  obtain k :: nat where k: "pi * 500000 < 2 ^ k"
    using real_arch_pow [of 2 "pi * 500000"] by auto
  have "\<exists>phi'. SampleFourier_loop [c] recip u' 0 pi ((1 / 2) * pi) = Some (phi', c) \<and> 0 < phi' \<and> phi' < pi"
  proof (rule SampleFourier_loop_single_returns [OF c, where k = k])
    show "0 < 1 / 2 * pi" "1 / 2 * pi < pi" by simp_all
    show "1 / 2 * pi = u' * pi \<or> 1 / 2 * pi = 1 / 2 * (0 + pi)" by simp
    show "pi - 0 < 2 / 1000000 * 2 ^ k" using k by simp
  qed
  then obtain phi' where
    l: "SampleFourier_loop [c] recip u' 0 pi ((1 / 2) * pi) = Some (phi', c)" and r: "0 < phi'" "phi' < pi"
    by blast
  have "SampleFourier [c] recip u = Some (c, 1 / (2 * pi), if u \<ge> 1 / 2 then 2 * pi - phi' else phi')"
    using l c by (simp add: SampleFourier_def Let_def u'_def Pi_def Inv2Pi_def)
  moreover have "0 \<le> (if u \<ge> 1 / 2 then 2 * pi - phi' else phi')"
    "(if u \<ge> 1 / 2 then 2 * pi - phi' else phi') < 2 * pi"
    using r by auto
  ultimately show ?thesis by blast
qed

theorem SampleFourier_single_coefficient_witness:
  "(2 :: real) \<noteq> 0 \<and> (0 :: real) \<le> 1 / 4 \<and> (1 / 4 :: real) < 1
   \<and> (\<exists>phi. SampleFourier [2] [0] (1 / 4) = Some (2, 1 / (2 * pi), phi) \<and> 0 \<le> phi \<and> phi < 2 * pi)"
proof -
  have h: "(2 :: real) \<noteq> 0" "(0 :: real) \<le> 1 / 4" "(1 / 4 :: real) < 1" by simp_all
  from h SampleFourier_single_coefficient [OF h, of "[0]"] show ?thesis by (intro conjI)
qed

section \<open>Spline sampling: correctness\<close>

text \<open>
  Every run of the Newton-bisection loop that reaches the \<open>break\<close> returns a \<open>t\<close> strictly
  inside the bracket it started from, with \<open>fhat\<close> the Hermite cubic at that \<open>t\<close>.
\<close>

lemma SampleCatmullRom_loop_invariant:
  assumes "SampleCatmullRom_loop f0 f1 d0 d1 u a b t = Some y"
  shows "a < b \<longrightarrow> a < fst y \<and> fst y < b
   \<and> snd y = f0 + fst y * (d0 + fst y * (- 2 * d0 - d1 + 3 * (f1 - f0) + fst y * (d0 + d1 + 2 * (f0 - f1))))"
proof (rule SampleCatmullRom_loop.raw_induct [where P = "\<lambda>f0 f1 d0 d1 u a b t y. a < b \<longrightarrow> a < fst y \<and> fst y < b
   \<and> snd y = f0 + fst y * (d0 + fst y * (- 2 * d0 - d1 + 3 * (f1 - f0) + fst y * (d0 + d1 + 2 * (f0 - f1))))",
   OF _ assms])
  fix loop :: "real \<Rightarrow> real \<Rightarrow> real \<Rightarrow> real \<Rightarrow> real \<Rightarrow> real \<Rightarrow> real \<Rightarrow> real option \<Rightarrow> (real \<times> real) option"
  fix f0 f1 d0 d1 u a b :: real and t :: "real option" and y :: "real \<times> real"
  assume IH: "\<And>f0 f1 d0 d1 u a b t y. loop f0 f1 d0 d1 u a b t = Some y \<Longrightarrow>
      a < b \<longrightarrow> a < fst y \<and> fst y < b
      \<and> snd y = f0 + fst y * (d0 + fst y * (- 2 * d0 - d1 + 3 * (f1 - f0) + fst y * (d0 + d1 + 2 * (f0 - f1))))"
  assume step: "(let t = case t of None \<Rightarrow> 1 / 2 * (a + b)
              | Some v \<Rightarrow> if \<not> (a < v \<and> v < b) then 1 / 2 * (a + b) else v;
          Fhat = t * (f0 + t * (1 / 2 * d0 + t * (1 / 3 * (- 2 * d0 - d1) + f1 - f0 +
               t * (1 / 4 * (d0 + d1) + 1 / 2 * (f0 - f1)))));
          fhat = f0 + t * (d0 + t * (- 2 * d0 - d1 + 3 * (f1 - f0) + t * (d0 + d1 + 2 * (f0 - f1))))
      in if \<bar>Fhat - u\<bar> < 1 / 1000000 \<or> b - a < 1 / 1000000
         then Some (t, fhat)
         else loop f0 f1 d0 d1 u
               (if Fhat - u < 0 then t else a)
               (if Fhat - u < 0 then b else t)
               (map_option ((-) t) (fdiv (Fhat - u) fhat))) = Some y"
  show "a < b \<longrightarrow> a < fst y \<and> fst y < b
      \<and> snd y = f0 + fst y * (d0 + fst y * (- 2 * d0 - d1 + 3 * (f1 - f0) + fst y * (d0 + d1 + 2 * (f0 - f1))))"
  proof
    assume ab: "a < b"
    define t1 where "t1 = (case t of None \<Rightarrow> 1 / 2 * (a + b)
                           | Some v \<Rightarrow> if \<not> (a < v \<and> v < b) then 1 / 2 * (a + b) else v)"
    define Fhat where "Fhat = t1 * (f0 + t1 * (1 / 2 * d0 + t1 * (1 / 3 * (- 2 * d0 - d1) + f1 - f0 +
                                t1 * (1 / 4 * (d0 + d1) + 1 / 2 * (f0 - f1)))))"
    define fhat where "fhat = f0 + t1 * (d0 + t1 * (- 2 * d0 - d1 + 3 * (f1 - f0) + t1 * (d0 + d1 + 2 * (f0 - f1))))"
    have mid: "a < 1 / 2 * (a + b)" "1 / 2 * (a + b) < b" using ab by argo+
    have t1: "a < t1" "t1 < b"
      using mid by (auto simp: t1_def split: option.splits)
    from step have body:
      "(if \<bar>Fhat - u\<bar> < 1 / 1000000 \<or> b - a < 1 / 1000000 then Some (t1, fhat)
        else loop f0 f1 d0 d1 u (if Fhat - u < 0 then t1 else a) (if Fhat - u < 0 then b else t1)
               (map_option ((-) t1) (fdiv (Fhat - u) fhat))) = Some y"
      unfolding Let_def t1_def [symmetric] Fhat_def [symmetric] fhat_def [symmetric] .
    show "a < fst y \<and> fst y < b
      \<and> snd y = f0 + fst y * (d0 + fst y * (- 2 * d0 - d1 + 3 * (f1 - f0) + fst y * (d0 + d1 + 2 * (f0 - f1))))"
    proof (cases "\<bar>Fhat - u\<bar> < 1 / 1000000 \<or> b - a < 1 / 1000000")
      case True
      with body have "y = (t1, fhat)" by simp
      with t1 show ?thesis by (simp add: fhat_def)
    next
      case False
      with body have rec: "loop f0 f1 d0 d1 u (if Fhat - u < 0 then t1 else a) (if Fhat - u < 0 then b else t1)
               (map_option ((-) t1) (fdiv (Fhat - u) fhat)) = Some y" by simp
      have "(if Fhat - u < 0 then t1 else a) < (if Fhat - u < 0 then b else t1)" using t1 by simp
      with IH [OF rec] t1 show ?thesis by (auto split: if_splits)
    qed
  qed
qed

lemma segment_of_point:
  assumes sorted: "sorted_wrt (<) nodes" and n: "2 \<le> length nodes"
      and i: "0 \<le> i" "i \<le> int (length nodes) - 2"
      and p: "elt nodes i \<le> p" "p < elt nodes (i + 1)"
  shows "GetIntArrayerval (int (length nodes)) (\<lambda>j. elt nodes j \<le> p) = i"
proof -
  have "GetIntArrayerval (int (length nodes)) (\<lambda>j. elt nodes j \<le> p) = Clamp i 0 (int (length nodes) - 2)"
  proof (rule GetIntArrayerval_last_true)
    show "2 \<le> int (length nodes)" using n by simp
    show "\<forall>k j. 0 \<le> k \<and> k \<le> j \<and> j < int (length nodes) \<and> elt nodes j \<le> p \<longrightarrow> elt nodes k \<le> p"
      using strict_nodes_le [OF sorted] by (meson order_trans)
    show "0 \<le> i" "i < int (length nodes)" using i by simp_all
    show "elt nodes i \<le> p" by (rule p(1))
    show "\<forall>j. i < j \<and> j < int (length nodes) \<longrightarrow> \<not> elt nodes j \<le> p"
    proof (intro allI impI)
      fix j assume j: "i < j \<and> j < int (length nodes)"
      then have "elt nodes (i + 1) \<le> elt nodes j"
        using i by (intro strict_nodes_le [OF sorted]) auto
      with p(2) show "\<not> elt nodes j \<le> p" by simp
    qed
  qed
  then show ?thesis using i by (simp add: Clamp_def)
qed


lemma SampleCatmullRom_at_segment:
  assumes "length x = length f" "length f = length F"
      and "GetIntArrayerval (int (length F)) (\<lambda>j. elt F j \<le> u * last F) = i"
  shows "SampleCatmullRom x f F u =
     (let x0 = elt x i; x1 = elt x (i + 1);
          f0 = elt f i; f1 = elt f (i + 1);
          width = x1 - x0;
          d0 = (if i > 0 then width * (f1 - elt f (i - 1)) / (x1 - elt x (i - 1)) else f1 - f0);
          d1 = (if i + 2 < int (length x) then width * (elt f (i + 2) - f0) / (elt x (i + 2) - x0)
                else f1 - f0);
          u2 = (u * last F - elt F i) / width;
          t = (if f0 \<noteq> f1
               then Some ((f0 - SafeSqrt (f0 * f0 + 2 * u2 * (f1 - f0))) / (f0 - f1))
               else fdiv u2 f0)
      in map_option (\<lambda>(t, fhat). Inr (x0 + width * t, fhat, fhat / last F))
           (SampleCatmullRom_loop f0 f1 d0 d1 u2 0 1 t))"
  using assms by (simp add: SampleCatmullRom_def Let_def)

text \<open>
  In exact arithmetic, for a strictly increasing \<open>x\<close>, sequences \<open>f\<close> and \<open>F\<close> of the same
  length (at least 2) and \<open>F.back() > 0\<close>, whatever \<open>SampleCatmullRom\<close> returns is a sample
  position in \<open>[x.front(), x.back()]\<close>, with \<open>*fval\<close> the value of the spline at that
  position (the value \<open>CatmullRom\<close> computes there) and \<open>*pdf\<close> that value divided by
  \<open>F.back()\<close>. This is a statement about the runs of the loop that reach the \<open>break\<close>
  only, and about exact arithmetic only: in binary32 the returned position can lie beyond
  \<open>x.back()\<close> (section \<open>Spline sampling in binary32: a position beyond the last node\<close>).
\<close>

lemma SampleCatmullRom_position_fval_pdf:
  assumes sorted: "sorted_wrt (<) x" and len: "length f = length x" "length F = length x"
      and n: "2 \<le> length x" and Fb: "0 < last F"
      and ret: "SampleCatmullRom x f F u = Some r"
  shows "\<exists>pos fval pdf. r = Inr (pos, fval, pdf)
         \<and> hd x \<le> pos \<and> pos \<le> last x
         \<and> CatmullRom x f pos = Inr fval
         \<and> pdf = fval / last F"
proof -
  define i where "i = GetIntArrayerval (int (length F)) (\<lambda>i. elt F i \<le> u * last F)"
  define x0 where "x0 = elt x i"
  define x1 where "x1 = elt x (i + 1)"
  define f0 where "f0 = elt f i"
  define f1 where "f1 = elt f (i + 1)"
  define d0 where "d0 = (if i > 0 then (x1 - x0) * (f1 - elt f (i - 1)) / (x1 - elt x (i - 1)) else f1 - f0)"
  define d1 where "d1 = (if i + 2 < int (length x) then (x1 - x0) * (elt f (i + 2) - f0) / (elt x (i + 2) - x0)
                         else f1 - f0)"
  define u2 where "u2 = (u * last F - elt F i) / (x1 - x0)"
  define t0 where "t0 = (if f0 \<noteq> f1 then Some ((f0 - SafeSqrt (f0 * f0 + 2 * u2 * (f1 - f0))) / (f0 - f1))
                         else fdiv u2 f0)"
  have unfold: "SampleCatmullRom x f F u =
      map_option (\<lambda>(t, fhat). Inr (x0 + (x1 - x0) * t, fhat, fhat / last F))
        (SampleCatmullRom_loop f0 f1 d0 d1 u2 0 1 t0)"
    unfolding SampleCatmullRom_at_segment [OF len(1) [symmetric] trans [OF len(1) len(2) [symmetric]]
        i_def [symmetric]]
      Let_def t0_def u2_def d0_def d1_def f0_def f1_def x0_def x1_def
    by simp
  from ret obtain t fhat where
    loop: "SampleCatmullRom_loop f0 f1 d0 d1 u2 0 1 t0 = Some (t, fhat)"
    and r: "r = Inr (x0 + (x1 - x0) * t, fhat, fhat / last F)"
    unfolding unfold by (auto simp: map_option_case split: option.splits)
  from SampleCatmullRom_loop_invariant [OF loop]
  have t: "0 < t" "t < 1"
    and fhat: "fhat = f0 + t * (d0 + t * (- 2 * d0 - d1 + 3 * (f1 - f0) + t * (d0 + d1 + 2 * (f0 - f1))))"
    by simp_all
  have irange: "0 \<le> i" "i \<le> int (length x) - 2"
    using GetIntArrayerval_range [of "int (length F)"] n len unfolding i_def by auto
  have width: "x0 < x1"
    unfolding x0_def x1_def using irange by (intro strict_nodes_less [OF sorted]) auto
  define pos where "pos = x0 + (x1 - x0) * t"
  have lo: "x0 < pos" unfolding pos_def using width t by simp
  have "(x1 - x0) * t < (x1 - x0) * 1" using width t by (intro mult_strict_left_mono) auto
  then have hi: "pos < x1" unfolding pos_def by simp
  have ends: "hd x \<le> x0" "x1 \<le> last x"
    using nodes_domain [OF sorted, of "nat i"] nodes_domain [OF sorted, of "nat (i + 1)"] irange
    by (auto simp: x0_def x1_def elt_def)
  have seg: "GetIntArrayerval (int (length x)) (\<lambda>j. elt x j \<le> pos) = i"
    using lo hi by (intro segment_of_point [OF sorted n irange]) (auto simp: x0_def x1_def)
  have tt: "(pos - x0) / (x1 - x0) = t" unfolding pos_def using width by simp
  have dom: "hd x \<le> pos" "pos \<le> last x" using ends lo hi by simp_all
  have "CatmullRom x f pos = Inr fhat"
    unfolding CatmullRom_at_segment [OF len(1) [symmetric] dom seg] Let_def
      x0_def [symmetric] x1_def [symmetric] f0_def [symmetric] f1_def [symmetric]
      d0_def [symmetric] d1_def [symmetric] tt fhat
    by (simp add: algebra_simps)
  with r dom show ?thesis unfolding pos_def by simp
qed

lemma example_sample:
  "SampleCatmullRom [0, 1] [1, 1] [0, 1] (1 / 2) = Some (Inr (1 / 2, 1, 1))"
proof -
  have i: "GetIntArrayerval (int (length [0, 1 :: real])) (\<lambda>j. elt [0, 1] j \<le> 1 / 2 * last [0, 1]) = 0"
    by (simp add: GetIntArrayerval_def GetIntArrayerval_loop.simps Clamp_def elt_def)
  have l: "SampleCatmullRom_loop 1 1 0 0 (1 / 2) 0 1 (Some (1 / 2)) = Some (1 / 2, 1)"
    by (subst SampleCatmullRom_loop.simps) simp
  have e: "elt [0, 1] 0 = 0" "elt [0, 1] 1 = 1" "elt [1, 1] 0 = 1" "elt [1, 1] 1 = 1"
    by (simp_all add: elt_def)
  show ?thesis
    unfolding SampleCatmullRom_at_segment [OF _ _ i, of "[0, 1]" "[1, 1]", simplified]
    by (simp add: Let_def e fdiv_def l)
qed
lemma SampleCatmullRom_position_fval_pdf_witness:
  "sorted_wrt (<) [0, 1 :: real] \<and> length [1, 1 :: real] = length [0, 1 :: real]
   \<and> length [0, 1 :: real] = length [0, 1 :: real] \<and> 2 \<le> length [0, 1 :: real]
   \<and> (0 :: real) < last [0, 1]
   \<and> SampleCatmullRom [0, 1] [1, 1] [0, 1] (1 / 2) = Some (Inr (1 / 2, 1, 1))
   \<and> (\<exists>pos fval pdf. Inr (1 / 2, 1, 1) = (Inr (pos, fval, pdf) :: abort + real \<times> real \<times> real)
         \<and> hd [0, 1] \<le> pos \<and> pos \<le> last [0, 1]
         \<and> CatmullRom [0, 1] [1, 1] pos = Inr fval
         \<and> pdf = fval / last [0, 1])"
proof -
  have h: "sorted_wrt (<) [0, 1 :: real]" "length [1, 1 :: real] = length [0, 1 :: real]"
    "length [0, 1 :: real] = length [0, 1 :: real]" "2 \<le> length [0, 1 :: real]"
    "(0 :: real) < last [0, 1]" by simp_all
  from h example_sample SampleCatmullRom_position_fval_pdf [OF h example_sample] show ?thesis
    by (intro conjI)
qed

section \<open>Spline sampling: the boundary scenario\<close>

lemma SampleCatmullRom_loop_inside:
  assumes "a < t" "t < b"
      and "FH = t * (f0 + t * (1 / 2 * d0 + t * (1 / 3 * (- 2 * d0 - d1) + f1 - f0 +
                      t * (1 / 4 * (d0 + d1) + 1 / 2 * (f0 - f1)))))"
      and "fh = f0 + t * (d0 + t * (- 2 * d0 - d1 + 3 * (f1 - f0) + t * (d0 + d1 + 2 * (f0 - f1))))"
  shows "SampleCatmullRom_loop f0 f1 d0 d1 u a b (Some t) =
     (if \<bar>FH - u\<bar> < 1 / 1000000 \<or> b - a < 1 / 1000000 then Some (t, fh)
      else SampleCatmullRom_loop f0 f1 d0 d1 u (if FH - u < 0 then t else a) (if FH - u < 0 then b else t)
             (map_option (\<lambda>q. t - q) (fdiv (FH - u) fh)))"
  by (subst SampleCatmullRom_loop.simps) (simp add: assms Let_def)

lemma SampleCatmullRom_loop_fallback:
  assumes "a < b" "\<not> (a < v \<and> v < b)"
  shows "SampleCatmullRom_loop f0 f1 d0 d1 u a b (Some v)
       = SampleCatmullRom_loop f0 f1 d0 d1 u a b (Some (1 / 2 * (a + b)))"
proof -
  have m: "a < 1 / 2 * (a + b)" "1 / 2 * (a + b) < b" using assms(1) by argo+
  show ?thesis
    by (subst SampleCatmullRom_loop.simps,
        subst SampleCatmullRom_loop.simps [of _ _ _ _ _ _ _ "Some (1 / 2 * (a + b))"])
       (simp add: assms m Let_def)
qed

text \<open>The first segment of the boundary scenario: \<open>f0 = 0\<close>, \<open>f1 = 1\<close>, \<open>d0 = 1\<close>, \<open>d1 = 0\<close>, \<open>u = 0\<close>.\<close>

lemma example_poly_bounds:
  fixes t :: real
  assumes "0 < t" "t \<le> 1"
  shows "0 < 1 + t - t * t"
    and "0 < 1 / 2 + 2 * t / 3 - 3 * (t * t) / 4"
    and "1 / 2 + 2 * t / 3 - 3 * (t * t) / 4 \<le> 3 / 5 * (1 + t - t * t)"
    and "t * t / 2 \<le> t * t * (1 / 2 + t / 3 - t * t / 4)"
    and "t * t * (1 / 2 + t / 3 - t * t / 4) \<le> 5 / 6 * (t * t)"
proof -
  have tt: "t * t \<le> t" using assms by (simp add: mult_left_le)
  have tt0: "0 < t * t" using assms by simp
  show "0 < 1 + t - t * t" using tt by linarith
  show "0 < 1 / 2 + 2 * t / 3 - 3 * (t * t) / 4" using tt assms by linarith
  have "0 \<le> (t - 2 / 9) * (t - 2 / 9)" by simp
  then show "1 / 2 + 2 * t / 3 - 3 * (t * t) / 4 \<le> 3 / 5 * (1 + t - t * t)"
    by (simp add: field_simps)
  have "0 \<le> t / 3 - t * t / 4" using tt assms by linarith
  then have "1 / 2 \<le> 1 / 2 + t / 3 - t * t / 4" by simp
  from mult_left_mono [OF this, of "t * t"] tt0
  show "t * t / 2 \<le> t * t * (1 / 2 + t / 3 - t * t / 4)" by simp
  have "1 / 2 + t / 3 - t * t / 4 \<le> 5 / 6" using assms tt0 by linarith
  from mult_left_mono [OF this, of "t * t"] tt0
  show "t * t * (1 / 2 + t / 3 - t * t / 4) \<le> 5 / 6 * (t * t)" by simp
qed

lemma example_loop_step:
  assumes "0 < t" "t < b" "b \<le> 1"
  shows "SampleCatmullRom_loop 0 1 1 0 0 0 b (Some t) =
     (if t * t * (1 / 2 + t / 3 - t * t / 4) < 1 / 1000000 \<or> b < 1 / 1000000
      then Some (t, t * (1 + t - t * t))
      else SampleCatmullRom_loop 0 1 1 0 0 0 t
             (Some (t * (1 / 2 + 2 * t / 3 - 3 * (t * t) / 4) / (1 + t - t * t))))"
proof -
  define FH where "FH = t * t * (1 / 2 + t / 3 - t * t / 4)"
  define fh where "fh = t * (1 + t - t * t)"
  have t1: "t \<le> 1" using assms by simp
  note pb = example_poly_bounds [OF assms(1) t1]
  have FH: "FH = t * (0 + t * (1 / 2 * 1 + t * (1 / 3 * (- 2 * 1 - 0) + 1 - 0 +
                      t * (1 / 4 * (1 + 0) + 1 / 2 * (0 - 1)))))"
    by (simp add: FH_def algebra_simps)
  have fh: "fh = 0 + t * (1 + t * (- 2 * 1 - 0 + 3 * (1 - 0) + t * (1 + 0 + 2 * (0 - 1))))"
    by (simp add: fh_def algebra_simps)
  have FHpos: "0 < FH"
  proof -
    have "0 < t * t / 2" using assms(1) by simp
    with pb(4) show ?thesis unfolding FH_def by linarith
  qed
  have fhpos: "0 < fh" unfolding fh_def using pb(1) assms(1) by simp
  have newton: "t - FH / fh = t * (1 / 2 + 2 * t / 3 - 3 * (t * t) / 4) / (1 + t - t * t)"
  proof -
    have q: "1 + t - t * t \<noteq> 0" using pb(1) by simp
    have "FH / fh = t * (1 / 2 + t / 3 - t * t / 4) / (1 + t - t * t)"
      unfolding FH_def fh_def using assms(1) by simp
    also have "t - \<dots> = t * ((1 + t - t * t) - (1 / 2 + t / 3 - t * t / 4)) / (1 + t - t * t)"
      using q by (simp add: field_simps)
    also have "(1 + t - t * t) - (1 / 2 + t / 3 - t * t / 4) = 1 / 2 + 2 * t / 3 - 3 * (t * t) / 4"
      by (simp add: field_simps)
    finally show ?thesis .
  qed
  show ?thesis
    unfolding SampleCatmullRom_loop_inside [OF assms(1,2) FH fh] FH_def [symmetric] fh_def [symmetric]
    using FHpos fhpos newton by (simp add: fdiv_def)
qed

text \<open>
  On that segment every Newton step stays in the bracket \<open>(0, t)\<close> and shrinks \<open>t\<close> by
  a factor of at most \<open>3/5\<close>, so the loop returns once the residual \<open>Fhat(t)\<close>, which
  lies between \<open>t^2 / 2\<close> and \<open>5 t^2 / 6\<close>, falls below \<open>1e-6\<close>: at a \<open>t\<close> that is
  positive and below \<open>0.0015\<close>.
\<close>

lemma example_loop_returns:
  "0 < t \<Longrightarrow> t < b \<Longrightarrow> b \<le> 1 \<Longrightarrow> t \<le> 1 / 1000 * (5 / 3) ^ k \<Longrightarrow>
   \<exists>t' fh. SampleCatmullRom_loop 0 1 1 0 0 0 b (Some t) = Some (t', fh) \<and> 0 < t' \<and> t' < 3 / 2000"
proof (induction k arbitrary: t b)
  case 0
  have t1: "t \<le> 1" using 0 by simp
  note pb = example_poly_bounds [OF "0.prems"(1) t1]
  have "t * t \<le> 1 / 1000 * (1 / 1000)"
    using 0 by (intro mult_mono) auto
  with pb(5) have small: "t * t * (1 / 2 + t / 3 - t * t / 4) < 1 / 1000000" by simp
  have "t < 3 / 2000" using "0.prems"(4) by simp
  with small "0.prems"(1) show ?case
    unfolding example_loop_step [OF "0.prems"(1,2,3)] by simp
next
  case (Suc k)
  have t1: "t \<le> 1" using Suc.prems by simp
  note pb = example_poly_bounds [OF Suc.prems(1) t1]
  show ?case
  proof (cases "t * t * (1 / 2 + t / 3 - t * t / 4) < 1 / 1000000 \<or> b < 1 / 1000000")
    case True
    have "t < 3 / 2000"
    proof (rule ccontr)
      assume "\<not> t < 3 / 2000"
      then have big: "3 / 2000 \<le> t" by simp
      then have "3 / 2000 * (3 / 2000) \<le> t * t" by (intro mult_mono) auto
      with pb(4) have "\<not> t * t * (1 / 2 + t / 3 - t * t / 4) < 1 / 1000000" by simp
      moreover have "\<not> b < 1 / 1000000" using big Suc.prems(2) by simp
      ultimately show False using True by simp
    qed
    with True Suc.prems(1) show ?thesis
      unfolding example_loop_step [OF Suc.prems(1,2,3)] by simp
  next
    case False
    define t2 where "t2 = t * (1 / 2 + 2 * t / 3 - 3 * (t * t) / 4) / (1 + t - t * t)"
    have ratio: "(1 / 2 + 2 * t / 3 - 3 * (t * t) / 4) / (1 + t - t * t) \<le> 3 / 5"
      using pb(1,3) by (simp add: divide_le_eq)
    have rpos: "0 < (1 / 2 + 2 * t / 3 - 3 * (t * t) / 4) / (1 + t - t * t)"
      using pb(1,2) by simp
    have t2eq: "t2 = t * ((1 / 2 + 2 * t / 3 - 3 * (t * t) / 4) / (1 + t - t * t))"
      by (simp add: t2_def)
    have t2pos: "0 < t2" unfolding t2eq by (rule mult_pos_pos [OF Suc.prems(1) rpos])
    have t2le: "t2 \<le> t * (3 / 5)"
      unfolding t2eq using Suc.prems(1) by (intro mult_left_mono [OF ratio]) simp
    then have t2lt: "t2 < t" using Suc.prems(1) by simp
    have "t * (3 / 5) \<le> 1 / 1000 * (5 / 3) ^ k" using Suc.prems(4) by simp
    with t2le have t2k: "t2 \<le> 1 / 1000 * (5 / 3) ^ k" by simp
    from Suc.IH [OF t2pos t2lt t1 t2k] show ?thesis
      unfolding example_loop_step [OF Suc.prems(1,2,3)] t2_def [symmetric] using False by simp
  qed
qed


lemma example_sample_at_zero:
  "\<exists>pos fval pdf.
     SampleCatmullRom [0, 1, 2, 3] [0, 1, 0, 1] [0, 7 / 12, 13 / 12, 3 / 2] 0 = Some (Inr (pos, fval, pdf))
     \<and> 0 < pos \<and> pos < 3 / 2000"
proof -
  have i: "GetIntArrayerval (int (length [0, 7 / 12, 13 / 12, 3 / 2 :: real]))
             (\<lambda>j. elt [0, 7 / 12, 13 / 12, 3 / 2] j \<le> 0 * last [0, 7 / 12, 13 / 12, 3 / 2]) = 0"
    by (simp add: GetIntArrayerval_def GetIntArrayerval_loop.simps Clamp_def elt_def)
  have e: "elt [0, 1, 2, 3] 0 = 0" "elt [0, 1, 2, 3] 1 = 1" "elt [0, 1, 2, 3] 2 = 2"
    "elt [0, 1, 0, 1] 0 = 0" "elt [0, 1, 0, 1] 1 = 1" "elt [0, 1, 0, 1] 2 = 0"
    "elt [0, 7 / 12, 13 / 12, 3 / 2] 0 = 0"
    by (simp_all add: elt_def)
  have unfold: "SampleCatmullRom [0, 1, 2, 3] [0, 1, 0, 1] [0, 7 / 12, 13 / 12, 3 / 2] 0 =
      map_option (\<lambda>(t, fhat). Inr (t, fhat, fhat / (3 / 2)))
        (SampleCatmullRom_loop 0 1 1 0 0 0 1 (Some 0))"
    unfolding SampleCatmullRom_at_segment [OF _ _ i, of "[0, 1, 2, 3]" "[0, 1, 0, 1]", simplified]
    by (simp add: Let_def e SafeSqrt_def)
  have start: "SampleCatmullRom_loop 0 1 1 0 0 0 1 (Some 0) = SampleCatmullRom_loop 0 1 1 0 0 0 1 (Some (1 / 2))"
    using SampleCatmullRom_loop_fallback [of 0 1 0 0 1 1 0 0] by simp
  have "(1 / 2 :: real) \<le> 1 / 1000 * (5 / 3) ^ 13" by (simp add: power_divide)
  from example_loop_returns [of "1 / 2" 1 13, OF _ _ _ this]
  obtain t' fh where "SampleCatmullRom_loop 0 1 1 0 0 0 1 (Some (1 / 2)) = Some (t', fh)"
    "0 < t'" "t' < 3 / 2000" by auto
  then show ?thesis unfolding unfold start
    by (intro exI [of _ t'] exI [of _ fh] exI [of _ "fh / (3 / 2)"]) simp
qed

text \<open>
  Claim C5, as amended. For nodes \<open>{0,1,2,3}\<close> and values \<open>{0,1,0,1}\<close>, with the cdf that
  \<open>IntegrateCatmullRom\<close> produces for them, \<open>SampleCatmullRom\<close> called with \<open>u = 0\<close>
  returns a position \<open>x\<close> with \<open>0 < x < 0.0015\<close>: the initial guess \<open>t = 0\<close> is not
  strictly inside the bracket \<open>(0, 1)\<close>, the loop restarts from the midpoint and stops at
  the first \<open>t\<close> whose residual is below \<open>1e-6\<close>.
\<close>

theorem SampleCatmullRom_at_zero_close_to_zero:
  "\<exists>total cdf pos fval pdf.
     IntegrateCatmullRom [0, 1, 2, 3] [0, 1, 0, 1] [0, 0, 0, 0] = Inr (total, cdf)
     \<and> SampleCatmullRom [0, 1, 2, 3] [0, 1, 0, 1] cdf 0 = Some (Inr (pos, fval, pdf))
     \<and> 0 < pos \<and> pos < 3 / 2000"
  using example_cdf example_sample_at_zero by blast

theorem SampleCatmullRom_at_zero_close_to_zero_witness:
  "\<exists>cdf pos. map_option (map_sum id fst) (SampleCatmullRom [0, 1, 2, 3] [0, 1, 0, 1] cdf 0) = Some (Inr pos)
     \<and> 0 < pos \<and> pos < 3 / 2000"
proof -
  from SampleCatmullRom_at_zero_close_to_zero obtain cdf pos fval pdf where
    "SampleCatmullRom [0, 1, 2, 3] [0, 1, 0, 1] cdf 0 = Some (Inr (pos, fval, pdf))"
    "0 < pos" "pos < 3 / 2000" by blast
  then show ?thesis by (intro exI [of _ cdf] exI [of _ pos]) simp
qed

text \<open>
  Claim C5, as stated, fails: in that scenario the call with \<open>u = 0\<close> returns, and the
  position it returns is not 0.
\<close>

theorem SampleCatmullRom_at_zero_not_zero:
  "IntegrateCatmullRom [0, 1, 2, 3] [0, 1, 0, 1] [0, 0, 0, 0] = Inr (3 / 2, [0, 7 / 12, 13 / 12, 3 / 2])
   \<and> SampleCatmullRom [0, 1, 2, 3] [0, 1, 0, 1] [0, 7 / 12, 13 / 12, 3 / 2] 0 \<noteq> None
   \<and> map_option (map_sum id fst)
        (SampleCatmullRom [0, 1, 2, 3] [0, 1, 0, 1] [0, 7 / 12, 13 / 12, 3 / 2] 0) \<noteq> Some (Inr 0)"
proof -
  from example_sample_at_zero obtain pos fval pdf where
    "SampleCatmullRom [0, 1, 2, 3] [0, 1, 0, 1] [0, 7 / 12, 13 / 12, 3 / 2] 0 = Some (Inr (pos, fval, pdf))"
    "0 < pos" by blast
  with example_cdf show ?thesis by simp
qed

section \<open>Binary32 arithmetic: rounding\<close>

lemmas f32_ops = zero_f32_def one_f32_def plus_f32_def minus_f32_def uminus_f32_def times_f32_def
  divide_f32_def abs_f32_def less_eq_f32_def less_f32_def

lemmas rd_eval = rd_def bexp_def pow2_def round_even_def Let_def compute_floorlog

lemma pow2_pos: "0 < pow2 k"
  by (simp add: pow2_def)

lemma pow2_nat: "pow2 (int n) = 2 ^ n"
  by (simp add: pow2_def)

lemma pow2_neg: "0 \<le> k \<Longrightarrow> pow2 (- k) = 1 / 2 ^ nat k"
  by (cases "k = 0") (simp_all add: pow2_def)

lemma pow2_powr: "pow2 k = 2 powr (real_of_int k)"
proof (cases "0 \<le> k")
  case True
  then have "2 powr (real_of_int k) = 2 powr (real (nat k))" by simp
  also have "\<dots> = 2 ^ nat k" by (simp only: powr_realpow [of 2 "nat k", simplified])
  finally show ?thesis using True by (simp add: pow2_def)
next
  case False
  then have "2 powr (real_of_int k) = 2 powr (- real (nat (- k)))" by simp
  also have "\<dots> = 1 / 2 powr (real (nat (- k)))" by (simp only: powr_minus_divide)
  also have "\<dots> = 1 / 2 ^ nat (- k)" by (simp only: powr_realpow [of 2 "nat (- k)", simplified])
  finally show ?thesis using False by (simp add: pow2_def)
qed

lemma pow2_add: "pow2 (j + k) = pow2 j * pow2 k"
  by (simp add: pow2_powr powr_add)

lemma pow2_mono: "j \<le> k \<Longrightarrow> pow2 j \<le> pow2 k"
  by (simp add: pow2_powr)

lemma pow2_strict_mono: "j < k \<Longrightarrow> pow2 j < pow2 k"
  by (simp add: pow2_powr)

lemma pow2_le_iff: "pow2 j \<le> pow2 k \<longleftrightarrow> j \<le> k"
  by (simp add: pow2_powr)

lemma pow2_less_iff: "pow2 j < pow2 k \<longleftrightarrow> j < k"
  by (simp add: pow2_powr)

lemma floorlog_eqI2:
  assumes "2 ^ w \<le> m" "m < 2 ^ Suc w"
  shows "floorlog 2 m = Suc w"
proof -
  have "floorlog 2 m \<le> Suc w" using assms(2) by (intro floorlog_leI) auto
  moreover have "Suc w \<le> floorlog 2 m" using assms(1) by (intro floorlog_ge_SucI) auto
  ultimately show ?thesis by simp
qed

lemma bexp_eqI:
  assumes lo: "pow2 e \<le> \<bar>x\<bar>" and hi: "\<bar>x\<bar> < pow2 (e + 1)"
  shows "bexp x = e"
proof (cases "1 \<le> \<bar>x\<bar>")
  case True
  have "pow2 0 < pow2 (e + 1)" using True hi by (simp add: pow2_def)
  then have e: "0 \<le> e" by (simp add: pow2_less_iff)
  define m where "m = nat \<lfloor>\<bar>x\<bar>\<rfloor>"
  have fl: "real m = of_int \<lfloor>\<bar>x\<bar>\<rfloor>" using True by (simp add: m_def)
  have "(2::real) ^ nat e \<le> \<bar>x\<bar>" using lo e by (simp add: pow2_def)
  then have "of_int (2 ^ nat e) \<le> \<bar>x\<bar>" by simp
  then have "(2::int) ^ nat e \<le> \<lfloor>\<bar>x\<bar>\<rfloor>" by (simp only: le_floor_iff)
  then have a: "2 ^ nat e \<le> m" unfolding m_def by (simp add: le_nat_iff)
  have "\<bar>x\<bar> < 2 ^ Suc (nat e)" using hi e by (simp add: pow2_def nat_add_distrib)
  then have "real m < 2 ^ Suc (nat e)" using fl by linarith
  then have b: "m < 2 ^ Suc (nat e)" using of_nat_less_numeral_power_cancel_iff by blast
  have "floorlog 2 m = Suc (nat e)" using a b by (rule floorlog_eqI2)
  then show ?thesis using True e by (simp add: bexp_def m_def)
next
  case False
  have x0: "0 < \<bar>x\<bar>" using lo pow2_pos [of e] by linarith
  have "pow2 e < pow2 0" using False lo by (simp add: pow2_def)
  then have e: "e < 0" by (simp add: pow2_less_iff)
  define L where "L = nat (- e) - 1"
  have eL: "e = - int (Suc L)" using e by (simp add: L_def)
  define y where "y = 1 / \<bar>x\<bar>"
  have y1: "1 < y" using False x0 by (simp add: y_def)
  define m where "m = nat (\<lceil>y\<rceil> - 1)"
  have cy: "2 \<le> \<lceil>y\<rceil>" using y1 by linarith
  have mr: "real m = of_int \<lceil>y\<rceil> - 1" using cy by (simp add: m_def)
  have "nat (int L + 1) = Suc L" by simp
  then have "pow2 (- int (Suc L)) = 1 / 2 ^ Suc L" by (simp add: pow2_def)
  then have "1 / 2 ^ Suc L \<le> \<bar>x\<bar>" using lo unfolding eL by simp
  then have "y \<le> 2 ^ Suc L" using x0 unfolding y_def by (simp add: field_simps)
  moreover have "real m < y" using mr by linarith
  ultimately have "real m < 2 ^ Suc L" by linarith
  then have b: "m < 2 ^ Suc L" using of_nat_less_numeral_power_cancel_iff by blast
  have "\<bar>x\<bar> < pow2 (- int L)" using hi unfolding eL by simp
  then have "\<bar>x\<bar> < 1 / 2 ^ L" by (cases "L = 0") (simp_all add: pow2_def)
  then have "2 ^ L < y" using x0 unfolding y_def by (simp add: field_simps)
  then have "of_int (2 ^ L) < y" by simp
  then have "(2::int) ^ L < \<lceil>y\<rceil>" by (simp only: less_ceiling_iff)
  then have "(2::int) ^ L \<le> int m" using cy by (simp add: m_def)
  then have a: "2 ^ L \<le> m" by (metis of_nat_le_iff of_nat_numeral of_nat_power)
  have "floorlog 2 m = Suc L" using a b by (rule floorlog_eqI2)
  then show ?thesis using False unfolding bexp_def m_def y_def eL by simp
qed

lemma round_even_eqI:
  assumes "\<bar>q - of_int n\<bar> < 1 / 2 \<or> (\<bar>q - of_int n\<bar> = 1 / 2 \<and> even n)"
  shows "round_even q = n"
proof -
  consider (a) "q < of_int n" "of_int n - 1 / 2 < q"
    | (b) "of_int n \<le> q" "q < of_int n + 1 / 2"
    | (c) "q = of_int n - 1 / 2" "even n"
    | (d) "q = of_int n + 1 / 2" "even n"
    using assms by (auto simp: abs_if split: if_splits)
  then show ?thesis
  proof cases
    case a
    then have "\<lfloor>q\<rfloor> = n - 1" by (intro floor_unique) auto
    then show ?thesis using a by (simp add: round_even_def Let_def)
  next
    case b
    then have "\<lfloor>q\<rfloor> = n" by (intro floor_unique) auto
    then show ?thesis using b by (simp add: round_even_def Let_def)
  next
    case c
    then have "\<lfloor>q\<rfloor> = n - 1" by (intro floor_unique) auto
    then show ?thesis using c by (simp add: round_even_def Let_def)
  next
    case d
    then have "\<lfloor>q\<rfloor> = n" by (intro floor_unique) auto
    then show ?thesis using d by (simp add: round_even_def Let_def)
  qed
qed

lemma rd_eqI:
  assumes "pow2 e \<le> \<bar>x\<bar>" "\<bar>x\<bar> < pow2 (e + 1)"
      and "k = max e (- 126) - 23"
      and "\<bar>x / pow2 k - of_int n\<bar> < 1 / 2 \<or> (\<bar>x / pow2 k - of_int n\<bar> = 1 / 2 \<and> even n)"
      and "\<bar>of_int n * pow2 k\<bar> < pow2 128"
      and "c = of_int n * pow2 k"
  shows "rd x = Fin c"
proof -
  have x0: "x \<noteq> 0" using assms(1) pow2_pos [of e] by auto
  have b: "bexp x = e" using assms(1,2) by (rule bexp_eqI)
  have r: "round_even (x / pow2 k) = n" using assms(4) by (rule round_even_eqI)
  show ?thesis
    unfolding rd_def using x0 assms(5) by (simp add: b Let_def assms(3) [symmetric] r assms(6))
qed

text \<open>
  \<open>rd_eqI\<close> evaluates a rounding from the exponent \<open>e\<close> and the integer significand \<open>n\<close>
  of the result: the concrete runs of the later sections are chains of such steps, one
  for each operation of the run.
\<close>

lemma rd_0: "rd 0 = Fin 0"
  by (simp add: rd_def)

lemma rd_not_NaN: "rd x \<noteq> NaN"
  by (simp add: rd_def Let_def)

lemma rd_1: "rd 1 = Fin 1"
  by (rule rd_eqI [where e = 0 and k = "- 23" and n = 8388608]) (simp_all add: pow2_def)

lemma rd_2: "rd 2 = Fin 2"
  by (rule rd_eqI [where e = 1 and k = "- 22" and n = 8388608]) (simp_all add: pow2_def)

lemma rd_3: "rd 3 = Fin 3"
  by (rule rd_eqI [where e = 1 and k = "- 22" and n = 12582912]) (simp_all add: pow2_def)

lemma rd_m1: "rd (- 1) = Fin (- 1)"
  by (rule rd_eqI [where e = 0 and k = "- 23" and n = "- 8388608"]) (simp_all add: pow2_def)

lemma rd_m2: "rd (- 2) = Fin (- 2)"
  by (rule rd_eqI [where e = 1 and k = "- 22" and n = "- 8388608"]) (simp_all add: pow2_def)

lemma bexp_bounds:
  assumes "x \<noteq> 0"
  shows "pow2 (bexp x) \<le> \<bar>x\<bar> \<and> \<bar>x\<bar> < pow2 (bexp x + 1)"
proof -
  define e where "e = \<lfloor>log 2 \<bar>x\<bar>\<rfloor>"
  have x0: "0 < \<bar>x\<bar>" using assms by simp
  have "real_of_int e \<le> log 2 \<bar>x\<bar>" by (simp add: e_def)
  then have "2 powr (real_of_int e) \<le> \<bar>x\<bar>" using x0 le_log_iff [of 2 "\<bar>x\<bar>" "real_of_int e"] by simp
  then have lo: "pow2 e \<le> \<bar>x\<bar>" by (simp add: pow2_powr)
  have "log 2 \<bar>x\<bar> < real_of_int (e + 1)" unfolding e_def by linarith
  then have "\<bar>x\<bar> < 2 powr (real_of_int (e + 1))" using x0 log_less_iff [of 2 "\<bar>x\<bar>" "real_of_int (e + 1)"] by simp
  then have hi: "\<bar>x\<bar> < pow2 (e + 1)" by (simp only: pow2_powr)
  from bexp_eqI [OF lo hi] lo hi show ?thesis by simp
qed

lemma round_even_zero:
  assumes "round_even q = 0"
  shows "\<bar>q\<bar> \<le> 1 / 2"
proof -
  have "\<lfloor>q\<rfloor> = 0 \<or> \<lfloor>q\<rfloor> = - 1"
    using assms by (auto simp: round_even_def Let_def split: if_splits)
  then show ?thesis
  proof
    assume f: "\<lfloor>q\<rfloor> = 0"
    then have "0 \<le> q" by linarith
    moreover have "q \<le> 1 / 2" using assms f by (auto simp: round_even_def Let_def split: if_splits)
    ultimately show ?thesis by simp
  next
    assume f: "\<lfloor>q\<rfloor> = - 1"
    then have "q < 0" by linarith
    moreover have "- 1 / 2 \<le> q" using assms f by (auto simp: round_even_def Let_def split: if_splits)
    ultimately show ?thesis by simp
  qed
qed

text \<open>A difference of at least the smallest subnormal number does not round to zero.\<close>

lemma rd_nonzero:
  assumes "pow2 (- 149) \<le> \<bar>x\<bar>"
  shows "rd x \<noteq> Fin 0"
proof -
  have x0: "x \<noteq> 0" using assms pow2_pos [of "- 149"] by auto
  define e where "e = max (bexp x) (- 126)"
  define q where "q = pow2 (e - 23)"
  have qpos: "0 < q" by (simp add: q_def pow2_pos)
  have "q \<le> \<bar>x\<bar>"
  proof (cases "- 126 \<le> bexp x")
    case True
    then have "e = bexp x" by (simp add: e_def)
    then have "q \<le> pow2 (bexp x)" unfolding q_def by (simp add: pow2_le_iff)
    with bexp_bounds [OF x0] show ?thesis by linarith
  next
    case False
    then have "e = - 126" by (simp add: e_def)
    then show ?thesis using assms by (simp add: q_def)
  qed
  then have "1 \<le> \<bar>x / q\<bar>" using qpos by (simp add: field_simps)
  then have "round_even (x / q) \<noteq> 0" using round_even_zero [of "x / q"] by linarith
  then have "of_int (round_even (x / q)) * q \<noteq> 0" using qpos by simp
  then show ?thesis using x0 unfolding rd_def by (simp add: Let_def e_def [symmetric] q_def [symmetric])
qed

text \<open>Every finite binary32 number is a multiple of the smallest subnormal number.\<close>

lemma rd_grid:
  assumes "rd v = Fin v"
  shows "\<exists>m :: int. v = of_int m * pow2 (- 149)"
proof (cases "v = 0")
  case True
  then show ?thesis by (intro exI [of _ 0]) simp
next
  case False
  define e where "e = max (bexp v) (- 126)"
  define N where "N = round_even (v / pow2 (e - 23))"
  have "v = of_int N * pow2 (e - 23)"
    using assms False unfolding rd_def
    by (simp add: Let_def e_def [symmetric] N_def [symmetric] split: if_splits)
  moreover have "pow2 (e - 23) = pow2 (e + 126) * pow2 (- 149)"
    by (simp add: pow2_add [symmetric])
  moreover have "pow2 (e + 126) = of_int (2 ^ nat (e + 126))"
    by (simp add: pow2_def e_def)
  ultimately have "v = of_int (N * 2 ^ nat (e + 126)) * pow2 (- 149)" by simp
  then show ?thesis by blast
qed

lemma rd_diff_nonzero:
  assumes "rd a = Fin a" "rd b = Fin b" "a \<noteq> b"
  shows "rd (b - a) \<noteq> Fin 0"
proof -
  from rd_grid [OF assms(1)] obtain m where m: "a = of_int m * pow2 (- 149)" by blast
  from rd_grid [OF assms(2)] obtain n where n: "b = of_int n * pow2 (- 149)" by blast
  have "n \<noteq> m" using assms(3) m n by auto
  then have "1 \<le> \<bar>real_of_int (n - m)\<bar>" by linarith
  then have "1 * pow2 (- 149) \<le> \<bar>real_of_int (n - m)\<bar> * pow2 (- 149)"
    using pow2_pos [of "- 149"] by (simp only: mult_le_cancel_right) simp
  moreover have "b - a = real_of_int (n - m) * pow2 (- 149)" by (simp add: m n algebra_simps)
  ultimately have "pow2 (- 149) \<le> \<bar>b - a\<bar>" using pow2_pos [of "- 149"] by (simp add: abs_mult)
  then show ?thesis by (rule rd_nonzero)
qed

lemma GetIntArrayerval_2: "GetIntArrayerval 2 P = 0"
  using GetIntArrayerval_range [of 2 P] by simp

lemma tolerance_f32: "rd (1 / 1000000) = Fin (8796093 / 8796093022208)"
  by (rule rd_eqI [where e = "- 20" and k = "- 43" and n = "8796093"]) (simp_all add: pow2_def)

lemmas f32_step = Let_def zero_f32_def one_f32_def less_eq_f32_def less_f32_def abs_f32_def
  uminus_f32_def tolerance_f32

section \<open>Spline evaluation in binary32: the values at the nodes\<close>

lemma GetIntArrayerval_loop_cong:
  assumes "\<forall>i. first \<le> i \<and> i < first + len \<longrightarrow> P i = Q i"
  shows "GetIntArrayerval_loop P first len = GetIntArrayerval_loop Q first len"
  using assms
proof (induction "nat len" arbitrary: first len rule: less_induct)
  case less
  show ?case
  proof (cases "len > 0")
    case False
    then show ?thesis
      by (simp add: GetIntArrayerval_loop.simps [of P first len] GetIntArrayerval_loop.simps [of Q first len])
  next
    case True
    define half where "half = len div 2"
    define middle where "middle = first + half"
    have hb: "0 \<le> half" "half < len" using True by (auto simp: half_def)
    have pq: "P middle = Q middle" using less.prems hb by (simp add: middle_def)
    have a: "GetIntArrayerval_loop P (middle + 1) (len - (half + 1)) =
             GetIntArrayerval_loop Q (middle + 1) (len - (half + 1))"
      using less.prems hb by (intro less.hyps) (auto simp: middle_def)
    have b: "GetIntArrayerval_loop P first half = GetIntArrayerval_loop Q first half"
      using less.prems hb by (intro less.hyps) auto
    show ?thesis
      using True pq a b
      by (simp add: GetIntArrayerval_loop.simps [of P first len] GetIntArrayerval_loop.simps [of Q first len]
          Let_def half_def [symmetric] middle_def [symmetric])
  qed
qed

lemma GetIntArrayerval_cong:
  assumes "\<forall>i. 0 \<le> i \<and> i < n \<longrightarrow> P i = Q i"
  shows "GetIntArrayerval n P = GetIntArrayerval n Q"
  unfolding GetIntArrayerval_def using GetIntArrayerval_loop_cong [of 0 n P Q] assms by simp

lemma elt_f_map: "0 \<le> j \<Longrightarrow> j < int (length xs) \<Longrightarrow> elt_f (map Fin xs) j = Fin (elt xs j)"
  by (simp add: elt_f_def elt_def)

lemma GetIntArrayerval_f32:
  "GetIntArrayerval (int (length nodes)) (\<lambda>j. elt_f (map Fin nodes) j \<le> Fin x) =
   GetIntArrayerval (int (length nodes)) (\<lambda>j. elt nodes j \<le> x)"
  by (rule GetIntArrayerval_cong) (simp add: elt_f_map less_eq_f32_def)

lemma domain_f32:
  "nodes \<noteq> [] \<Longrightarrow>
   (Fin x \<ge> hd (map Fin nodes) \<and> Fin x \<le> last (map Fin nodes)) = (hd nodes \<le> x \<and> x \<le> last nodes)"
  by (simp add: hd_map last_map less_eq_f32_def)

lemma CatmullRom_f32_at_segment:
  assumes "length nodes = length values" "x \<ge> hd nodes" "x \<le> last nodes"
      and "GetIntArrayerval (int (length nodes)) (\<lambda>i. elt_f nodes i \<le> x) = idx"
  shows "CatmullRom_f32 nodes values x =
         Inr (let x0 = elt_f nodes idx; x1 = elt_f nodes (idx + 1);
                  f0 = elt_f values idx; f1 = elt_f values (idx + 1);
                  d0 = CatmullRom_d0_f32 nodes values idx;
                  d1 = CatmullRom_d1_f32 nodes values idx;
                  t = (x - x0) / (x1 - x0); t2 = t * t; t3 = t2 * t
              in (Fin 2 * t3 - Fin 3 * t2 + 1) * f0 + (Fin (- 2) * t3 + Fin 3 * t2) * f1 +
                 (t3 - Fin 2 * t2 + t) * d0 + (t3 - t2) * d1)"
  using assms by (simp add: CatmullRom_f32_def Let_def)

lemma hermite_at_0:
  assumes "rd f0 = Fin f0"
  shows "(let t = Fin 0; t2 = t * t; t3 = t2 * t
          in (Fin 2 * t3 - Fin 3 * t2 + 1) * Fin f0 + (Fin (- 2) * t3 + Fin 3 * t2) * Fin f1 +
             (t3 - Fin 2 * t2 + t) * Fin d0 + (t3 - t2) * Fin d1) = Fin f0"
  by (simp add: Let_def f32_ops rd_0 rd_1 assms)

lemma hermite_at_1:
  assumes "rd f1 = Fin f1"
  shows "(let t = Fin 1; t2 = t * t; t3 = t2 * t
          in (Fin 2 * t3 - Fin 3 * t2 + 1) * Fin f0 + (Fin (- 2) * t3 + Fin 3 * t2) * Fin f1 +
             (t3 - Fin 2 * t2 + t) * Fin d0 + (t3 - t2) * Fin d1) = Fin f1"
  by (simp add: Let_def f32_ops rd_0 rd_1 rd_2 rd_3 rd_m1 rd_m2 assms)

lemma zero_over_width:
  assumes "w \<noteq> Fin 0" "w \<noteq> NaN"
  shows "Fin 0 / w = Fin 0"
  using assms by (cases w) (simp_all add: divide_f32_def rd_0)

lemma is_finite_Fin: "is_finite a \<Longrightarrow> \<exists>v. a = Fin v"
  by (cases a) (simp_all add: is_finite_def)

text \<open>
  Claim C7, as amended. In binary32, for a strictly increasing sequence of finite nodes
  and a sequence of finite values of the same length (at least 2), \<open>CatmullRom\<close> returns 0
  for every \<open>x\<close> outside \<open>[nodes.front(), nodes.back()]\<close> (a NaN included); and at a node
  \<open>nodes[i]\<close> it returns exactly \<open>values[i]\<close> provided that, in the segment \<open>k\<close> that the
  interval search selects for the node (\<open>k = i\<close>, and \<open>k = n - 2\<close> for the last node), the
  width \<open>x1 - x0\<close> and the two derivative estimates \<open>d0\<close> and \<open>d1\<close> have not overflowed.
\<close>

theorem CatmullRom_f32_zero_outside_exact_at_finite_nodes:
  assumes sorted: "sorted_wrt (<) nodes" and len: "length values = length nodes"
      and n: "2 \<le> length nodes"
      and bn: "\<forall>v \<in> set nodes. is_binary32 (Fin v)"
      and bv: "\<forall>v \<in> set values. is_binary32 (Fin v)"
  shows "(\<not> (x \<ge> hd (map Fin nodes) \<and> x \<le> last (map Fin nodes)) \<longrightarrow>
            CatmullRom_f32 (map Fin nodes) (map Fin values) x = Inr 0)
       \<and> (\<forall>i < length nodes.
            (let k = min (int i) (int (length nodes) - 2)
             in is_finite (elt_f (map Fin nodes) (k + 1) - elt_f (map Fin nodes) k)
              \<and> is_finite (CatmullRom_d0_f32 (map Fin nodes) (map Fin values) k)
              \<and> is_finite (CatmullRom_d1_f32 (map Fin nodes) (map Fin values) k)) \<longrightarrow>
            CatmullRom_f32 (map Fin nodes) (map Fin values) (Fin (nodes ! i)) = Inr (Fin (values ! i)))"
proof (intro conjI impI allI)
  assume "\<not> (x \<ge> hd (map Fin nodes) \<and> x \<le> last (map Fin nodes))"
  then show "CatmullRom_f32 (map Fin nodes) (map Fin values) x = Inr 0"
    using len by (auto simp: CatmullRom_f32_def)
next
  fix i assume i: "i < length nodes"
  let ?N = "map Fin nodes" and ?V = "map Fin values"
  define k where "k = min (int i) (int (length nodes) - 2)"
  assume "let k = min (int i) (int (length nodes) - 2)
          in is_finite (elt_f ?N (k + 1) - elt_f ?N k)
           \<and> is_finite (CatmullRom_d0_f32 ?N ?V k) \<and> is_finite (CatmullRom_d1_f32 ?N ?V k)"
  then have fin: "is_finite (elt_f ?N (k + 1) - elt_f ?N k)"
    "is_finite (CatmullRom_d0_f32 ?N ?V k)" "is_finite (CatmullRom_d1_f32 ?N ?V k)"
    by (simp_all add: Let_def k_def)
  from is_finite_Fin [OF fin(2)] obtain d0 where d0: "CatmullRom_d0_f32 ?N ?V k = Fin d0" by blast
  from is_finite_Fin [OF fin(3)] obtain d1 where d1: "CatmullRom_d1_f32 ?N ?V k = Fin d1" by blast
  have ne: "nodes \<noteq> []" using n by auto
  have k0: "0 \<le> k" "k + 1 < int (length nodes)" using i n by (auto simp: k_def)
  have seg: "GetIntArrayerval (int (length ?N)) (\<lambda>j. elt_f ?N j \<le> Fin (nodes ! i)) = k"
    using node_segment [OF sorted n i] i n
    by (simp only: length_map GetIntArrayerval_f32) (auto simp: k_def)
  have dom: "Fin (nodes ! i) \<ge> hd ?N" "Fin (nodes ! i) \<le> last ?N"
    using nodes_domain [OF sorted i] domain_f32 [OF ne, of "nodes ! i"] by simp_all
  have len': "length ?N = length ?V" using len by simp
  have x0: "elt_f ?N k = Fin (elt nodes k)" using k0 by (simp add: elt_f_map)
  have x1: "elt_f ?N (k + 1) = Fin (elt nodes (k + 1))" using k0 by (simp add: elt_f_map)
  have f0: "elt_f ?V k = Fin (elt values k)" using k0 len by (simp add: elt_f_map)
  have f1: "elt_f ?V (k + 1) = Fin (elt values (k + 1))" using k0 len by (simp add: elt_f_map)
  have lt: "elt nodes k < elt nodes (k + 1)"
    using k0 by (intro strict_nodes_less [OF sorted]) auto
  have r0: "rd (elt nodes k) = Fin (elt nodes k)"
    using bn k0 by (simp add: is_binary32_def elt_def)
  have r1: "rd (elt nodes (k + 1)) = Fin (elt nodes (k + 1))"
    using bn k0 by (simp add: is_binary32_def elt_def)
  have w0: "elt_f ?N (k + 1) - elt_f ?N k \<noteq> Fin 0"
    unfolding x0 x1 using rd_diff_nonzero [OF r0 r1] lt by (simp add: minus_f32_def)
  have wn: "elt_f ?N (k + 1) - elt_f ?N k \<noteq> NaN"
    unfolding x0 x1 by (simp add: minus_f32_def rd_not_NaN)
  show "CatmullRom_f32 ?N ?V (Fin (nodes ! i)) = Inr (Fin (values ! i))"
  proof (cases "i = length nodes - 1")
    case False
    then have ki: "k = int i" using i by (auto simp: k_def)
    have "Fin (nodes ! i) - elt_f ?N k = Fin 0"
      unfolding x0 by (simp add: ki elt_def minus_f32_def rd_0)
    then have t: "(Fin (nodes ! i) - elt_f ?N k) / (elt_f ?N (k + 1) - elt_f ?N k) = Fin 0"
      using zero_over_width [OF w0 wn] by simp
    have v: "rd (elt values k) = Fin (elt values k)"
      using bv k0 len by (simp add: is_binary32_def elt_def)
    have "CatmullRom_f32 ?N ?V (Fin (nodes ! i)) = Inr (Fin (elt values k))"
      unfolding CatmullRom_f32_at_segment [OF len' dom seg] d0 d1
      using hermite_at_0 [OF v, of "elt values (k + 1)" d0 d1]
      by (simp add: Let_def t f0 f1)
    then show ?thesis by (simp add: ki elt_def)
  next
    case True
    then have ki: "k + 1 = int i" using i n by (auto simp: k_def)
    from is_finite_Fin [OF fin(1)] obtain w where w: "elt_f ?N (k + 1) - elt_f ?N k = Fin w" by blast
    have wz: "w \<noteq> 0" using w0 w by simp
    have xi: "Fin (nodes ! i) = elt_f ?N (k + 1)" unfolding x1 by (simp add: ki elt_def)
    have t: "(Fin (nodes ! i) - elt_f ?N k) / (elt_f ?N (k + 1) - elt_f ?N k) = Fin 1"
      unfolding xi w using wz by (simp add: divide_f32_def rd_1)
    have v: "rd (elt values (k + 1)) = Fin (elt values (k + 1))"
      using bv k0 len by (simp add: is_binary32_def elt_def)
    have "CatmullRom_f32 ?N ?V (Fin (nodes ! i)) = Inr (Fin (elt values (k + 1)))"
      unfolding CatmullRom_f32_at_segment [OF len' dom seg] d0 d1
      using hermite_at_1 [OF v, of "elt values k" d0 d1]
      by (simp add: Let_def t f0 f1)
    then show ?thesis by (simp add: ki elt_def)
  qed
qed

lemma example_nodes_binary32:
  "\<forall>v \<in> set [0, 1, 2, 3 :: real]. is_binary32 (Fin v)"
  by (simp add: is_binary32_def rd_0 rd_1 rd_2 rd_3)

lemma example_values_binary32:
  "\<forall>v \<in> set [0, 1, 0, 1 :: real]. is_binary32 (Fin v)"
  by (simp add: is_binary32_def rd_0 rd_1)

theorem CatmullRom_f32_zero_outside_exact_at_finite_nodes_witness:
  "CatmullRom_f32 (map Fin [0, 1, 2, 3]) (map Fin [0, 1, 0, 1]) (Fin 4) = Inr 0
   \<and> CatmullRom_f32 (map Fin [0, 1, 2, 3]) (map Fin [0, 1, 0, 1]) NaN = Inr 0
   \<and> CatmullRom_f32 (map Fin [0, 1, 2, 3]) (map Fin [0, 1, 0, 1]) (Fin 3) = Inr (Fin 1)
   \<and> CatmullRom_f32 (map Fin [0, 1, 2, 3]) (map Fin [0, 1, 0, 1]) (Fin 1) = Inr (Fin 1)"
proof -
  have h: "sorted_wrt (<) [0, 1, 2, 3 :: real]" "length [0, 1, 0, 1 :: real] = length [0, 1, 2, 3 :: real]"
    "2 \<le> length [0, 1, 2, 3 :: real]" by simp_all
  note T = CatmullRom_f32_zero_outside_exact_at_finite_nodes
    [OF h example_nodes_binary32 example_values_binary32]
  have a: "CatmullRom_f32 (map Fin [0, 1, 2, 3]) (map Fin [0, 1, 0, 1]) (Fin 4) = Inr 0"
    using T [of "Fin 4"] by (simp add: less_eq_f32_def)
  have b: "CatmullRom_f32 (map Fin [0, 1, 2, 3]) (map Fin [0, 1, 0, 1]) NaN = Inr 0"
    using T [of NaN] by (simp add: less_eq_f32_def)
  from T [of NaN] have all: "\<forall>i < length [0, 1, 2, 3 :: real].
      (let k = min (int i) (int (length [0, 1, 2, 3 :: real]) - 2)
       in is_finite (elt_f (map Fin [0, 1, 2, 3]) (k + 1) - elt_f (map Fin [0, 1, 2, 3]) k)
        \<and> is_finite (CatmullRom_d0_f32 (map Fin [0, 1, 2, 3]) (map Fin [0, 1, 0, 1]) k)
        \<and> is_finite (CatmullRom_d1_f32 (map Fin [0, 1, 2, 3]) (map Fin [0, 1, 0, 1]) k)) \<longrightarrow>
      CatmullRom_f32 (map Fin [0, 1, 2, 3]) (map Fin [0, 1, 0, 1]) (Fin ([0, 1, 2, 3] ! i)) =
      Inr (Fin ([0, 1, 0, 1] ! i))" by (rule conjunct2)
  have c: "CatmullRom_f32 (map Fin [0, 1, 2, 3]) (map Fin [0, 1, 0, 1]) (Fin 3) = Inr (Fin 1)"
    using all [rule_format, of 3]
    by (simp add: Let_def elt_f_def CatmullRom_d0_f32_def CatmullRom_d1_f32_def f32_ops is_finite_def
        rd_0 rd_1 rd_2)
  have d: "CatmullRom_f32 (map Fin [0, 1, 2, 3]) (map Fin [0, 1, 0, 1]) (Fin 1) = Inr (Fin 1)"
    using all [rule_format, of 1]
    by (simp add: Let_def elt_f_def CatmullRom_d0_f32_def CatmullRom_d1_f32_def f32_ops is_finite_def
        rd_0 rd_1 rd_2 rd_m1)
  from a b c d show ?thesis by simp
qed

lemma overflow_ops_0: "Fin 1 - Fin 0 = Fin 1"
  by (simp add: minus_f32_def, rule rd_eqI [where e = "0" and k = "- 23" and n = "8388608"])
     (simp_all add: pow2_def)

lemma overflow_ops_1:
  "Fin (- 300000000549775575777803994281145270272) - Fin 300000000549775575777803994281145270272 =
   NInf"
  by (simp add: f32_ops rd_eval)

lemma overflow_ops_2: "Fin 0 - Fin 0 = Fin 0"
  by (simp add: minus_f32_def rd_0)

lemma overflow_ops_3: "Fin 0 / Fin 1 = Fin 0"
  by (simp add: divide_f32_def rd_0)

lemma overflow_ops_4: "Fin 0 * Fin 0 = Fin 0"
  by (simp add: times_f32_def rd_0)

lemma overflow_ops_5: "Fin 2 * Fin 0 = Fin 0"
  by (simp add: times_f32_def rd_0)

lemma overflow_ops_6: "Fin 3 * Fin 0 = Fin 0"
  by (simp add: times_f32_def rd_0)

lemma overflow_ops_7: "Fin 0 + Fin 1 = Fin 1"
  by (simp add: plus_f32_def, rule rd_eqI [where e = "0" and k = "- 23" and n = "8388608"])
     (simp_all add: pow2_def)

lemma overflow_ops_8:
  "Fin 1 * Fin 300000000549775575777803994281145270272 =
   Fin 300000000549775575777803994281145270272"
  by (simp add: times_f32_def, rule rd_eqI [where e = "127" and k = "104" and n = "14791142"])
     (simp_all add: pow2_def)

lemma overflow_ops_9: "Fin (- 2) * Fin 0 = Fin 0"
  by (simp add: times_f32_def rd_0)

lemma overflow_ops_10: "Fin 0 + Fin 0 = Fin 0"
  by (simp add: plus_f32_def rd_0)

lemma overflow_ops_11: "Fin 0 * Fin (- 300000000549775575777803994281145270272) = Fin 0"
  by (simp add: times_f32_def rd_0)

lemma overflow_ops_12:
  "Fin 300000000549775575777803994281145270272 + Fin 0 =
   Fin 300000000549775575777803994281145270272"
  by (simp add: plus_f32_def, rule rd_eqI [where e = "127" and k = "104" and n = "14791142"])
     (simp_all add: pow2_def)

lemma overflow_ops_13: "Fin 0 * NInf = NaN"
  by (simp add: f32_ops rd_eval)

lemma overflow_ops_14: "Fin 300000000549775575777803994281145270272 + NaN = NaN"
  by (simp add: f32_ops rd_eval)

lemma overflow_ops_15: "NaN + NaN = NaN"
  by (simp add: f32_ops rd_eval)

lemmas overflow_ops =
  overflow_ops_0 overflow_ops_1 overflow_ops_2 overflow_ops_3 overflow_ops_4 overflow_ops_5
  overflow_ops_6 overflow_ops_7 overflow_ops_8 overflow_ops_9 overflow_ops_10 overflow_ops_11
  overflow_ops_12 overflow_ops_13 overflow_ops_14 overflow_ops_15

lemma overflow_value_binary32: "is_binary32 (Fin 300000000549775575777803994281145270272)"
  unfolding is_binary32_def f32.case
  by (rule rd_eqI [where e = "127" and k = "104" and n = "14791142"]) (simp_all add: pow2_def)

text \<open>
  Claim C7, as stated, fails in binary32. For the nodes \<open>{0, 1}\<close> and the values
  \<open>{3e38f, -3e38f}\<close> (finite binary32 numbers) the secant \<open>f1 - f0\<close> overflows to
  \<open>-inf\<close>; at the node \<open>x = 0\<close> the basis coefficient of \<open>d0\<close> is 0, and
  \<open>0 * -inf\<close> is NaN, so \<open>CatmullRom\<close> returns NaN and not \<open>values[0]\<close>.
\<close>

theorem CatmullRom_f32_overflow_at_node:
  "is_binary32 (Fin 300000000549775575777803994281145270272)
   \<and> CatmullRom_f32 [Fin 0, Fin 1]
         [Fin 300000000549775575777803994281145270272, Fin (- 300000000549775575777803994281145270272)] (Fin 0) = Inr NaN
   \<and> NaN \<noteq> Fin 300000000549775575777803994281145270272"
  unfolding CatmullRom_f32_def CatmullRom_d0_f32_def CatmullRom_d1_f32_def
  by (simp add: overflow_value_binary32 GetIntArrayerval_2 elt_f_def f32_step overflow_ops)

section \<open>Spline weights in binary32\<close>















































































section \<open>Spline sampling in binary32: a position beyond the last node\<close>

text \<open>
  The run of \<open>SampleCatmullRom\<close> on the nodes \<open>{-3, 0.2f}\<close>, the values \<open>{5, 40}\<close>, their cdf
  \<open>{0, 72}\<close> and \<open>u = 1 - 2^-24\<close>, operation by operation: \<open>overshoot_ops\<close> are the
  roundings of the run, \<open>overshoot_round_i\<close> is round \<open>i\<close> of the loop.
\<close>

lemma overshoot_ops_0: "Fin (13421773 / 67108864) - Fin (- 3) = Fin (13421773 / 4194304)"
  by (simp add: minus_f32_def, rule rd_eqI [where e = "1" and k = "- 22" and n = "13421773"])
     (simp_all add: pow2_def)

lemma overshoot_ops_1: "Fin 40 - Fin 5 = Fin 35"
  by (simp add: minus_f32_def, rule rd_eqI [where e = "5" and k = "- 18" and n = "9175040"])
     (simp_all add: pow2_def)

lemma overshoot_ops_2: "Fin 35 - Fin 35 = Fin 0"
  by (simp add: minus_f32_def rd_0)

lemma overshoot_ops_3: "Fin 1 / Fin 12 = Fin (11184811 / 134217728)"
  by (simp add: divide_f32_def, rule rd_eqI [where e = "- 4" and k = "- 27" and n = "11184811"])
     (simp_all add: pow2_def)

lemma overshoot_ops_4: "Fin 0 * Fin (11184811 / 134217728) = Fin 0"
  by (simp add: times_f32_def rd_0)

lemma overshoot_ops_5: "Fin 5 + Fin 40 = Fin 45"
  by (simp add: plus_f32_def, rule rd_eqI [where e = "5" and k = "- 18" and n = "11796480"])
     (simp_all add: pow2_def)

lemma overshoot_ops_6: "Fin 45 * Fin (1 / 2) = Fin (45 / 2)"
  by (simp add: times_f32_def, rule rd_eqI [where e = "4" and k = "- 19" and n = "11796480"])
     (simp_all add: pow2_def)

lemma overshoot_ops_7: "Fin 0 + Fin (45 / 2) = Fin (45 / 2)"
  by (simp add: plus_f32_def, rule rd_eqI [where e = "4" and k = "- 19" and n = "11796480"])
     (simp_all add: pow2_def)

lemma overshoot_ops_8: "Fin (45 / 2) * Fin (13421773 / 4194304) = Fin 72"
  by (simp add: times_f32_def, rule rd_eqI [where e = "6" and k = "- 17" and n = "9437184"])
     (simp_all add: pow2_def)

lemma overshoot_ops_9: "Fin 0 + Fin 72 = Fin 72"
  by (simp add: plus_f32_def, rule rd_eqI [where e = "6" and k = "- 17" and n = "9437184"])
     (simp_all add: pow2_def)

lemma overshoot_ops_10: "Fin (16777215 / 16777216) * Fin 72 = Fin (9437183 / 131072)"
  by (simp add: times_f32_def, rule rd_eqI [where e = "6" and k = "- 17" and n = "9437183"])
     (simp_all add: pow2_def)

lemma overshoot_ops_11: "Fin (9437183 / 131072) - Fin 0 = Fin (9437183 / 131072)"
  by (simp add: minus_f32_def, rule rd_eqI [where e = "6" and k = "- 17" and n = "9437183"])
     (simp_all add: pow2_def)

lemma overshoot_ops_12:
  "Fin (9437183 / 131072) / Fin (13421773 / 4194304) =
   Fin (11796479 / 524288)"
  by (simp add: divide_f32_def, rule rd_eqI [where e = "4" and k = "- 19" and n = "11796479"])
     (simp_all add: pow2_def)

lemma overshoot_ops_13: "Fin 5 * Fin 5 = Fin 25"
  by (simp add: times_f32_def, rule rd_eqI [where e = "4" and k = "- 19" and n = "13107200"])
     (simp_all add: pow2_def)

lemma overshoot_ops_14: "Fin 2 * Fin (11796479 / 524288) = Fin (11796479 / 262144)"
  by (simp add: times_f32_def, rule rd_eqI [where e = "5" and k = "- 18" and n = "11796479"])
     (simp_all add: pow2_def)

lemma overshoot_ops_15: "Fin (11796479 / 262144) * Fin 35 = Fin (12902399 / 8192)"
  by (simp add: times_f32_def, rule rd_eqI [where e = "10" and k = "- 13" and n = "12902399"])
     (simp_all add: pow2_def)

lemma overshoot_ops_16: "Fin 25 + Fin (12902399 / 8192) = Fin (13107199 / 8192)"
  by (simp add: plus_f32_def, rule rd_eqI [where e = "10" and k = "- 13" and n = "13107199"])
     (simp_all add: pow2_def)

lemma overshoot_ops_17: "Fin 5 - Fin 40 = Fin (- 35)"
  by (simp add: minus_f32_def, rule rd_eqI [where e = "5" and k = "- 18" and n = "- 9175040"])
     (simp_all add: pow2_def)

lemma overshoot_ops_18: "Fin (- 35) / Fin (- 35) = Fin 1"
  by (simp add: divide_f32_def, rule rd_eqI [where e = "0" and k = "- 23" and n = "8388608"])
     (simp_all add: pow2_def)

lemma overshoot_ops_19: "Fin 0 + Fin 1 = Fin 1"
  by (simp add: plus_f32_def, rule rd_eqI [where e = "0" and k = "- 23" and n = "8388608"])
     (simp_all add: pow2_def)

lemma overshoot_ops_20: "Fin (1 / 2) * Fin 1 = Fin (1 / 2)"
  by (simp add: times_f32_def, rule rd_eqI [where e = "- 1" and k = "- 24" and n = "8388608"])
     (simp_all add: pow2_def)

lemma overshoot_ops_21: "Fin (1 / 2) * Fin 35 = Fin (35 / 2)"
  by (simp add: times_f32_def, rule rd_eqI [where e = "4" and k = "- 19" and n = "9175040"])
     (simp_all add: pow2_def)

lemma overshoot_ops_22: "Fin 1 / Fin 3 = Fin (11184811 / 33554432)"
  by (simp add: divide_f32_def, rule rd_eqI [where e = "- 2" and k = "- 25" and n = "11184811"])
     (simp_all add: pow2_def)

lemma overshoot_ops_23: "Fin (- 2) * Fin 35 = Fin (- 70)"
  by (simp add: times_f32_def, rule rd_eqI [where e = "6" and k = "- 17" and n = "- 9175040"])
     (simp_all add: pow2_def)

lemma overshoot_ops_24: "Fin (- 70) - Fin 35 = Fin (- 105)"
  by (simp add: minus_f32_def, rule rd_eqI [where e = "6" and k = "- 17" and n = "- 13762560"])
     (simp_all add: pow2_def)

lemma overshoot_ops_25: "Fin (11184811 / 33554432) * Fin (- 105) = Fin (- 35)"
  by (simp add: times_f32_def, rule rd_eqI [where e = "5" and k = "- 18" and n = "- 9175040"])
     (simp_all add: pow2_def)

lemma overshoot_ops_26: "Fin (- 35) + Fin 40 = Fin 5"
  by (simp add: plus_f32_def, rule rd_eqI [where e = "2" and k = "- 21" and n = "10485760"])
     (simp_all add: pow2_def)

lemma overshoot_ops_27: "Fin 5 - Fin 5 = Fin 0"
  by (simp add: minus_f32_def rd_0)

lemma overshoot_ops_28: "Fin 35 + Fin 35 = Fin 70"
  by (simp add: plus_f32_def, rule rd_eqI [where e = "6" and k = "- 17" and n = "9175040"])
     (simp_all add: pow2_def)

lemma overshoot_ops_29: "Fin (1 / 4) * Fin 70 = Fin (35 / 2)"
  by (simp add: times_f32_def, rule rd_eqI [where e = "4" and k = "- 19" and n = "9175040"])
     (simp_all add: pow2_def)

lemma overshoot_ops_30: "Fin (1 / 2) * Fin (- 35) = Fin (- (35 / 2))"
  by (simp add: times_f32_def, rule rd_eqI [where e = "4" and k = "- 19" and n = "- 9175040"])
     (simp_all add: pow2_def)

lemma overshoot_ops_31: "Fin (35 / 2) + Fin (- (35 / 2)) = Fin 0"
  by (simp add: plus_f32_def rd_0)

lemma overshoot_ops_32: "Fin (1 / 2) * Fin 0 = Fin 0"
  by (simp add: times_f32_def rd_0)

lemma overshoot_ops_33: "Fin 0 + Fin 0 = Fin 0"
  by (simp add: plus_f32_def rd_0)

lemma overshoot_ops_34: "Fin (35 / 2) + Fin 0 = Fin (35 / 2)"
  by (simp add: plus_f32_def, rule rd_eqI [where e = "4" and k = "- 19" and n = "9175040"])
     (simp_all add: pow2_def)

lemma overshoot_ops_35: "Fin (1 / 2) * Fin (35 / 2) = Fin (35 / 4)"
  by (simp add: times_f32_def, rule rd_eqI [where e = "3" and k = "- 20" and n = "9175040"])
     (simp_all add: pow2_def)

lemma overshoot_ops_36: "Fin 5 + Fin (35 / 4) = Fin (55 / 4)"
  by (simp add: plus_f32_def, rule rd_eqI [where e = "3" and k = "- 20" and n = "14417920"])
     (simp_all add: pow2_def)

lemma overshoot_ops_37: "Fin (1 / 2) * Fin (55 / 4) = Fin (55 / 8)"
  by (simp add: times_f32_def, rule rd_eqI [where e = "2" and k = "- 21" and n = "14417920"])
     (simp_all add: pow2_def)

lemma overshoot_ops_38: "Fin 3 * Fin 35 = Fin 105"
  by (simp add: times_f32_def, rule rd_eqI [where e = "6" and k = "- 17" and n = "13762560"])
     (simp_all add: pow2_def)

lemma overshoot_ops_39: "Fin (- 105) + Fin 105 = Fin 0"
  by (simp add: plus_f32_def rd_0)

lemma overshoot_ops_40: "Fin 2 * Fin (- 35) = Fin (- 70)"
  by (simp add: times_f32_def, rule rd_eqI [where e = "6" and k = "- 17" and n = "- 9175040"])
     (simp_all add: pow2_def)

lemma overshoot_ops_41: "Fin 70 + Fin (- 70) = Fin 0"
  by (simp add: plus_f32_def rd_0)

lemma overshoot_ops_42: "Fin 35 + Fin 0 = Fin 35"
  by (simp add: plus_f32_def, rule rd_eqI [where e = "5" and k = "- 18" and n = "9175040"])
     (simp_all add: pow2_def)

lemma overshoot_ops_43: "Fin 5 + Fin (35 / 2) = Fin (45 / 2)"
  by (simp add: plus_f32_def, rule rd_eqI [where e = "4" and k = "- 19" and n = "11796480"])
     (simp_all add: pow2_def)

lemma overshoot_ops_44: "Fin (55 / 8) - Fin (11796479 / 524288) = Fin (- (8191999 / 524288))"
  by (simp add: minus_f32_def, rule rd_eqI [where e = "3" and k = "- 20" and n = "- 16383998"])
     (simp_all add: pow2_def)

lemma overshoot_ops_45: "Fin 1 - Fin 0 = Fin 1"
  by (simp add: minus_f32_def, rule rd_eqI [where e = "0" and k = "- 23" and n = "8388608"])
     (simp_all add: pow2_def)

lemma overshoot_ops_46: "Fin (- (8191999 / 524288)) / Fin (45 / 2) = Fin (- (11650843 / 16777216))"
  by (simp add: divide_f32_def, rule rd_eqI [where e = "- 1" and k = "- 24" and n = "- 11650843"])
     (simp_all add: pow2_def)

lemma overshoot_ops_47: "Fin (1 / 2) - Fin (- (11650843 / 16777216)) = Fin (5009863 / 4194304)"
  by (simp add: minus_f32_def, rule rd_eqI [where e = "0" and k = "- 23" and n = "10019726"])
     (simp_all add: pow2_def)

lemma overshoot_ops_48: "Fin (1 / 2) + Fin 1 = Fin (3 / 2)"
  by (simp add: plus_f32_def, rule rd_eqI [where e = "0" and k = "- 23" and n = "12582912"])
     (simp_all add: pow2_def)

lemma overshoot_ops_49: "Fin (1 / 2) * Fin (3 / 2) = Fin (3 / 4)"
  by (simp add: times_f32_def, rule rd_eqI [where e = "- 1" and k = "- 24" and n = "12582912"])
     (simp_all add: pow2_def)

lemma overshoot_ops_50: "Fin (3 / 4) * Fin 0 = Fin 0"
  by (simp add: times_f32_def rd_0)

lemma overshoot_ops_51: "Fin (3 / 4) * Fin (35 / 2) = Fin (105 / 8)"
  by (simp add: times_f32_def, rule rd_eqI [where e = "3" and k = "- 20" and n = "13762560"])
     (simp_all add: pow2_def)

lemma overshoot_ops_52: "Fin 5 + Fin (105 / 8) = Fin (145 / 8)"
  by (simp add: plus_f32_def, rule rd_eqI [where e = "4" and k = "- 19" and n = "9502720"])
     (simp_all add: pow2_def)

lemma overshoot_ops_53: "Fin (3 / 4) * Fin (145 / 8) = Fin (435 / 32)"
  by (simp add: times_f32_def, rule rd_eqI [where e = "3" and k = "- 20" and n = "14254080"])
     (simp_all add: pow2_def)

lemma overshoot_ops_54: "Fin (3 / 4) * Fin 35 = Fin (105 / 4)"
  by (simp add: times_f32_def, rule rd_eqI [where e = "4" and k = "- 19" and n = "13762560"])
     (simp_all add: pow2_def)

lemma overshoot_ops_55: "Fin 5 + Fin (105 / 4) = Fin (125 / 4)"
  by (simp add: plus_f32_def, rule rd_eqI [where e = "4" and k = "- 19" and n = "16384000"])
     (simp_all add: pow2_def)

lemma overshoot_ops_56: "Fin (435 / 32) - Fin (11796479 / 524288) = Fin (- (4669439 / 524288))"
  by (simp add: minus_f32_def, rule rd_eqI [where e = "3" and k = "- 20" and n = "- 9338878"])
     (simp_all add: pow2_def)

lemma overshoot_ops_57: "Fin 1 - Fin (1 / 2) = Fin (1 / 2)"
  by (simp add: minus_f32_def, rule rd_eqI [where e = "- 1" and k = "- 24" and n = "8388608"])
     (simp_all add: pow2_def)

lemma overshoot_ops_58: "Fin (- (4669439 / 524288)) / Fin (125 / 4) = Fin (- (9563011 / 33554432))"
  by (simp add: divide_f32_def, rule rd_eqI [where e = "- 2" and k = "- 25" and n = "- 9563011"])
     (simp_all add: pow2_def)

lemma overshoot_ops_59: "Fin (3 / 4) - Fin (- (9563011 / 33554432)) = Fin (8682209 / 8388608)"
  by (simp add: minus_f32_def, rule rd_eqI [where e = "0" and k = "- 23" and n = "8682209"])
     (simp_all add: pow2_def)

lemma overshoot_ops_60: "Fin (3 / 4) + Fin 1 = Fin (7 / 4)"
  by (simp add: plus_f32_def, rule rd_eqI [where e = "0" and k = "- 23" and n = "14680064"])
     (simp_all add: pow2_def)

lemma overshoot_ops_61: "Fin (1 / 2) * Fin (7 / 4) = Fin (7 / 8)"
  by (simp add: times_f32_def, rule rd_eqI [where e = "- 1" and k = "- 24" and n = "14680064"])
     (simp_all add: pow2_def)

lemma overshoot_ops_62: "Fin (7 / 8) * Fin 0 = Fin 0"
  by (simp add: times_f32_def rd_0)

lemma overshoot_ops_63: "Fin (7 / 8) * Fin (35 / 2) = Fin (245 / 16)"
  by (simp add: times_f32_def, rule rd_eqI [where e = "3" and k = "- 20" and n = "16056320"])
     (simp_all add: pow2_def)

lemma overshoot_ops_64: "Fin 5 + Fin (245 / 16) = Fin (325 / 16)"
  by (simp add: plus_f32_def, rule rd_eqI [where e = "4" and k = "- 19" and n = "10649600"])
     (simp_all add: pow2_def)

lemma overshoot_ops_65: "Fin (7 / 8) * Fin (325 / 16) = Fin (2275 / 128)"
  by (simp add: times_f32_def, rule rd_eqI [where e = "4" and k = "- 19" and n = "9318400"])
     (simp_all add: pow2_def)

lemma overshoot_ops_66: "Fin (7 / 8) * Fin 35 = Fin (245 / 8)"
  by (simp add: times_f32_def, rule rd_eqI [where e = "4" and k = "- 19" and n = "16056320"])
     (simp_all add: pow2_def)

lemma overshoot_ops_67: "Fin 5 + Fin (245 / 8) = Fin (285 / 8)"
  by (simp add: plus_f32_def, rule rd_eqI [where e = "5" and k = "- 18" and n = "9338880"])
     (simp_all add: pow2_def)

lemma overshoot_ops_68: "Fin (2275 / 128) - Fin (11796479 / 524288) = Fin (- (2478079 / 524288))"
  by (simp add: minus_f32_def, rule rd_eqI [where e = "2" and k = "- 21" and n = "- 9912316"])
     (simp_all add: pow2_def)

lemma overshoot_ops_69: "Fin 1 - Fin (3 / 4) = Fin (1 / 4)"
  by (simp add: minus_f32_def, rule rd_eqI [where e = "- 2" and k = "- 25" and n = "8388608"])
     (simp_all add: pow2_def)

lemma overshoot_ops_70: "Fin (- (2478079 / 524288)) / Fin (285 / 8) = Fin (- (4451847 / 33554432))"
  by (simp add: divide_f32_def, rule rd_eqI [where e = "- 3" and k = "- 26" and n = "- 8903694"])
     (simp_all add: pow2_def)

lemma overshoot_ops_71: "Fin (7 / 8) - Fin (- (4451847 / 33554432)) = Fin (4226497 / 4194304)"
  by (simp add: minus_f32_def, rule rd_eqI [where e = "0" and k = "- 23" and n = "8452994"])
     (simp_all add: pow2_def)

lemma overshoot_ops_72: "Fin (7 / 8) + Fin 1 = Fin (15 / 8)"
  by (simp add: plus_f32_def, rule rd_eqI [where e = "0" and k = "- 23" and n = "15728640"])
     (simp_all add: pow2_def)

lemma overshoot_ops_73: "Fin (1 / 2) * Fin (15 / 8) = Fin (15 / 16)"
  by (simp add: times_f32_def, rule rd_eqI [where e = "- 1" and k = "- 24" and n = "15728640"])
     (simp_all add: pow2_def)

lemma overshoot_ops_74: "Fin (15 / 16) * Fin 0 = Fin 0"
  by (simp add: times_f32_def rd_0)

lemma overshoot_ops_75: "Fin (15 / 16) * Fin (35 / 2) = Fin (525 / 32)"
  by (simp add: times_f32_def, rule rd_eqI [where e = "4" and k = "- 19" and n = "8601600"])
     (simp_all add: pow2_def)

lemma overshoot_ops_76: "Fin 5 + Fin (525 / 32) = Fin (685 / 32)"
  by (simp add: plus_f32_def, rule rd_eqI [where e = "4" and k = "- 19" and n = "11223040"])
     (simp_all add: pow2_def)

lemma overshoot_ops_77: "Fin (15 / 16) * Fin (685 / 32) = Fin (10275 / 512)"
  by (simp add: times_f32_def, rule rd_eqI [where e = "4" and k = "- 19" and n = "10521600"])
     (simp_all add: pow2_def)

lemma overshoot_ops_78: "Fin (15 / 16) * Fin 35 = Fin (525 / 16)"
  by (simp add: times_f32_def, rule rd_eqI [where e = "5" and k = "- 18" and n = "8601600"])
     (simp_all add: pow2_def)

lemma overshoot_ops_79: "Fin 5 + Fin (525 / 16) = Fin (605 / 16)"
  by (simp add: plus_f32_def, rule rd_eqI [where e = "5" and k = "- 18" and n = "9912320"])
     (simp_all add: pow2_def)

lemma overshoot_ops_80: "Fin (10275 / 512) - Fin (11796479 / 524288) = Fin (- (1274879 / 524288))"
  by (simp add: minus_f32_def, rule rd_eqI [where e = "1" and k = "- 22" and n = "- 10199032"])
     (simp_all add: pow2_def)

lemma overshoot_ops_81: "Fin 1 - Fin (7 / 8) = Fin (1 / 8)"
  by (simp add: minus_f32_def, rule rd_eqI [where e = "- 3" and k = "- 26" and n = "8388608"])
     (simp_all add: pow2_def)

lemma overshoot_ops_82:
  "Fin (- (1274879 / 524288)) / Fin (605 / 16) =
   Fin (- (8631247 / 134217728))"
  by (simp add: divide_f32_def, rule rd_eqI [where e = "- 4" and k = "- 27" and n = "- 8631247"])
     (simp_all add: pow2_def)

lemma overshoot_ops_83: "Fin (15 / 16) - Fin (- (8631247 / 134217728)) = Fin (8403773 / 8388608)"
  by (simp add: minus_f32_def, rule rd_eqI [where e = "0" and k = "- 23" and n = "8403773"])
     (simp_all add: pow2_def)

lemma overshoot_ops_84: "Fin (15 / 16) + Fin 1 = Fin (31 / 16)"
  by (simp add: plus_f32_def, rule rd_eqI [where e = "0" and k = "- 23" and n = "16252928"])
     (simp_all add: pow2_def)

lemma overshoot_ops_85: "Fin (1 / 2) * Fin (31 / 16) = Fin (31 / 32)"
  by (simp add: times_f32_def, rule rd_eqI [where e = "- 1" and k = "- 24" and n = "16252928"])
     (simp_all add: pow2_def)

lemma overshoot_ops_86: "Fin (31 / 32) * Fin 0 = Fin 0"
  by (simp add: times_f32_def rd_0)

lemma overshoot_ops_87: "Fin (31 / 32) * Fin (35 / 2) = Fin (1085 / 64)"
  by (simp add: times_f32_def, rule rd_eqI [where e = "4" and k = "- 19" and n = "8888320"])
     (simp_all add: pow2_def)

lemma overshoot_ops_88: "Fin 5 + Fin (1085 / 64) = Fin (1405 / 64)"
  by (simp add: plus_f32_def, rule rd_eqI [where e = "4" and k = "- 19" and n = "11509760"])
     (simp_all add: pow2_def)

lemma overshoot_ops_89: "Fin (31 / 32) * Fin (1405 / 64) = Fin (43555 / 2048)"
  by (simp add: times_f32_def, rule rd_eqI [where e = "4" and k = "- 19" and n = "11150080"])
     (simp_all add: pow2_def)

lemma overshoot_ops_90: "Fin (31 / 32) * Fin 35 = Fin (1085 / 32)"
  by (simp add: times_f32_def, rule rd_eqI [where e = "5" and k = "- 18" and n = "8888320"])
     (simp_all add: pow2_def)

lemma overshoot_ops_91: "Fin 5 + Fin (1085 / 32) = Fin (1245 / 32)"
  by (simp add: plus_f32_def, rule rd_eqI [where e = "5" and k = "- 18" and n = "10199040"])
     (simp_all add: pow2_def)

lemma overshoot_ops_92: "Fin (43555 / 2048) - Fin (11796479 / 524288) = Fin (- (646399 / 524288))"
  by (simp add: minus_f32_def, rule rd_eqI [where e = "0" and k = "- 23" and n = "- 10342384"])
     (simp_all add: pow2_def)

lemma overshoot_ops_93: "Fin 1 - Fin (15 / 16) = Fin (1 / 16)"
  by (simp add: minus_f32_def, rule rd_eqI [where e = "- 4" and k = "- 27" and n = "8388608"])
     (simp_all add: pow2_def)

lemma overshoot_ops_94:
  "Fin (- (646399 / 524288)) / Fin (1245 / 32) =
   Fin (- (8506507 / 268435456))"
  by (simp add: divide_f32_def, rule rd_eqI [where e = "- 5" and k = "- 28" and n = "- 8506507"])
     (simp_all add: pow2_def)

lemma overshoot_ops_95: "Fin (31 / 32) - Fin (- (8506507 / 268435456)) = Fin (2098073 / 2097152)"
  by (simp add: minus_f32_def, rule rd_eqI [where e = "0" and k = "- 23" and n = "8392292"])
     (simp_all add: pow2_def)

lemma overshoot_ops_96: "Fin (31 / 32) + Fin 1 = Fin (63 / 32)"
  by (simp add: plus_f32_def, rule rd_eqI [where e = "0" and k = "- 23" and n = "16515072"])
     (simp_all add: pow2_def)

lemma overshoot_ops_97: "Fin (1 / 2) * Fin (63 / 32) = Fin (63 / 64)"
  by (simp add: times_f32_def, rule rd_eqI [where e = "- 1" and k = "- 24" and n = "16515072"])
     (simp_all add: pow2_def)

lemma overshoot_ops_98: "Fin (63 / 64) * Fin 0 = Fin 0"
  by (simp add: times_f32_def rd_0)

lemma overshoot_ops_99: "Fin (63 / 64) * Fin (35 / 2) = Fin (2205 / 128)"
  by (simp add: times_f32_def, rule rd_eqI [where e = "4" and k = "- 19" and n = "9031680"])
     (simp_all add: pow2_def)

lemma overshoot_ops_100: "Fin 5 + Fin (2205 / 128) = Fin (2845 / 128)"
  by (simp add: plus_f32_def, rule rd_eqI [where e = "4" and k = "- 19" and n = "11653120"])
     (simp_all add: pow2_def)

lemma overshoot_ops_101: "Fin (63 / 64) * Fin (2845 / 128) = Fin (179235 / 8192)"
  by (simp add: times_f32_def, rule rd_eqI [where e = "4" and k = "- 19" and n = "11471040"])
     (simp_all add: pow2_def)

lemma overshoot_ops_102: "Fin (63 / 64) * Fin 35 = Fin (2205 / 64)"
  by (simp add: times_f32_def, rule rd_eqI [where e = "5" and k = "- 18" and n = "9031680"])
     (simp_all add: pow2_def)

lemma overshoot_ops_103: "Fin 5 + Fin (2205 / 64) = Fin (2525 / 64)"
  by (simp add: plus_f32_def, rule rd_eqI [where e = "5" and k = "- 18" and n = "10342400"])
     (simp_all add: pow2_def)

lemma overshoot_ops_104: "Fin (179235 / 8192) - Fin (11796479 / 524288) = Fin (- (325439 / 524288))"
  by (simp add: minus_f32_def, rule rd_eqI [where e = "- 1" and k = "- 24" and n = "- 10414048"])
     (simp_all add: pow2_def)

lemma overshoot_ops_105: "Fin 1 - Fin (31 / 32) = Fin (1 / 32)"
  by (simp add: minus_f32_def, rule rd_eqI [where e = "- 5" and k = "- 28" and n = "8388608"])
     (simp_all add: pow2_def)

lemma overshoot_ops_106:
  "Fin (- (325439 / 524288)) / Fin (2525 / 64) =
   Fin (- (8446721 / 536870912))"
  by (simp add: divide_f32_def, rule rd_eqI [where e = "- 6" and k = "- 29" and n = "- 8446721"])
     (simp_all add: pow2_def)

lemma overshoot_ops_107: "Fin (63 / 64) - Fin (- (8446721 / 536870912)) = Fin (2097379 / 2097152)"
  by (simp add: minus_f32_def, rule rd_eqI [where e = "0" and k = "- 23" and n = "8389516"])
     (simp_all add: pow2_def)

lemma overshoot_ops_108: "Fin (63 / 64) + Fin 1 = Fin (127 / 64)"
  by (simp add: plus_f32_def, rule rd_eqI [where e = "0" and k = "- 23" and n = "16646144"])
     (simp_all add: pow2_def)

lemma overshoot_ops_109: "Fin (1 / 2) * Fin (127 / 64) = Fin (127 / 128)"
  by (simp add: times_f32_def, rule rd_eqI [where e = "- 1" and k = "- 24" and n = "16646144"])
     (simp_all add: pow2_def)

lemma overshoot_ops_110: "Fin (127 / 128) * Fin 0 = Fin 0"
  by (simp add: times_f32_def rd_0)

lemma overshoot_ops_111: "Fin (127 / 128) * Fin (35 / 2) = Fin (4445 / 256)"
  by (simp add: times_f32_def, rule rd_eqI [where e = "4" and k = "- 19" and n = "9103360"])
     (simp_all add: pow2_def)

lemma overshoot_ops_112: "Fin 5 + Fin (4445 / 256) = Fin (5725 / 256)"
  by (simp add: plus_f32_def, rule rd_eqI [where e = "4" and k = "- 19" and n = "11724800"])
     (simp_all add: pow2_def)

lemma overshoot_ops_113: "Fin (127 / 128) * Fin (5725 / 256) = Fin (727075 / 32768)"
  by (simp add: times_f32_def, rule rd_eqI [where e = "4" and k = "- 19" and n = "11633200"])
     (simp_all add: pow2_def)

lemma overshoot_ops_114: "Fin (127 / 128) * Fin 35 = Fin (4445 / 128)"
  by (simp add: times_f32_def, rule rd_eqI [where e = "5" and k = "- 18" and n = "9103360"])
     (simp_all add: pow2_def)

lemma overshoot_ops_115: "Fin 5 + Fin (4445 / 128) = Fin (5085 / 128)"
  by (simp add: plus_f32_def, rule rd_eqI [where e = "5" and k = "- 18" and n = "10414080"])
     (simp_all add: pow2_def)

lemma overshoot_ops_116:
  "Fin (727075 / 32768) - Fin (11796479 / 524288) =
   Fin (- (163279 / 524288))"
  by (simp add: minus_f32_def, rule rd_eqI [where e = "- 2" and k = "- 25" and n = "- 10449856"])
     (simp_all add: pow2_def)

lemma overshoot_ops_117: "Fin 1 - Fin (63 / 64) = Fin (1 / 64)"
  by (simp add: minus_f32_def, rule rd_eqI [where e = "- 6" and k = "- 29" and n = "8388608"])
     (simp_all add: pow2_def)

lemma overshoot_ops_118:
  "Fin (- (163279 / 524288)) / Fin (5085 / 128) =
   Fin (- (4208713 / 536870912))"
  by (simp add: divide_f32_def, rule rd_eqI [where e = "- 7" and k = "- 30" and n = "- 8417426"])
     (simp_all add: pow2_def)

lemma overshoot_ops_119: "Fin (127 / 128) - Fin (- (4208713 / 536870912)) = Fin (8388833 / 8388608)"
  by (simp add: minus_f32_def, rule rd_eqI [where e = "0" and k = "- 23" and n = "8388833"])
     (simp_all add: pow2_def)

lemma overshoot_ops_120: "Fin (127 / 128) + Fin 1 = Fin (255 / 128)"
  by (simp add: plus_f32_def, rule rd_eqI [where e = "0" and k = "- 23" and n = "16711680"])
     (simp_all add: pow2_def)

lemma overshoot_ops_121: "Fin (1 / 2) * Fin (255 / 128) = Fin (255 / 256)"
  by (simp add: times_f32_def, rule rd_eqI [where e = "- 1" and k = "- 24" and n = "16711680"])
     (simp_all add: pow2_def)

lemma overshoot_ops_122: "Fin (255 / 256) * Fin 0 = Fin 0"
  by (simp add: times_f32_def rd_0)

lemma overshoot_ops_123: "Fin (255 / 256) * Fin (35 / 2) = Fin (8925 / 512)"
  by (simp add: times_f32_def, rule rd_eqI [where e = "4" and k = "- 19" and n = "9139200"])
     (simp_all add: pow2_def)

lemma overshoot_ops_124: "Fin 5 + Fin (8925 / 512) = Fin (11485 / 512)"
  by (simp add: plus_f32_def, rule rd_eqI [where e = "4" and k = "- 19" and n = "11760640"])
     (simp_all add: pow2_def)

lemma overshoot_ops_125: "Fin (255 / 256) * Fin (11485 / 512) = Fin (2928675 / 131072)"
  by (simp add: times_f32_def, rule rd_eqI [where e = "4" and k = "- 19" and n = "11714700"])
     (simp_all add: pow2_def)

lemma overshoot_ops_126: "Fin (255 / 256) * Fin 35 = Fin (8925 / 256)"
  by (simp add: times_f32_def, rule rd_eqI [where e = "5" and k = "- 18" and n = "9139200"])
     (simp_all add: pow2_def)

lemma overshoot_ops_127: "Fin 5 + Fin (8925 / 256) = Fin (10205 / 256)"
  by (simp add: plus_f32_def, rule rd_eqI [where e = "5" and k = "- 18" and n = "10449920"])
     (simp_all add: pow2_def)

lemma overshoot_ops_128:
  "Fin (2928675 / 131072) - Fin (11796479 / 524288) =
   Fin (- (81779 / 524288))"
  by (simp add: minus_f32_def, rule rd_eqI [where e = "- 3" and k = "- 26" and n = "- 10467712"])
     (simp_all add: pow2_def)

lemma overshoot_ops_129: "Fin 1 - Fin (127 / 128) = Fin (1 / 128)"
  by (simp add: minus_f32_def, rule rd_eqI [where e = "- 7" and k = "- 30" and n = "8388608"])
     (simp_all add: pow2_def)

lemma overshoot_ops_130:
  "Fin (- (81779 / 524288)) / Fin (10205 / 256) =
   Fin (- (4201445 / 1073741824))"
  by (simp add: divide_f32_def, rule rd_eqI [where e = "- 8" and k = "- 31" and n = "- 8402890"])
     (simp_all add: pow2_def)

lemma overshoot_ops_131:
  "Fin (255 / 256) - Fin (- (4201445 / 1073741824)) =
   Fin (1048583 / 1048576)"
  by (simp add: minus_f32_def, rule rd_eqI [where e = "0" and k = "- 23" and n = "8388664"])
     (simp_all add: pow2_def)

lemma overshoot_ops_132: "Fin (255 / 256) + Fin 1 = Fin (511 / 256)"
  by (simp add: plus_f32_def, rule rd_eqI [where e = "0" and k = "- 23" and n = "16744448"])
     (simp_all add: pow2_def)

lemma overshoot_ops_133: "Fin (1 / 2) * Fin (511 / 256) = Fin (511 / 512)"
  by (simp add: times_f32_def, rule rd_eqI [where e = "- 1" and k = "- 24" and n = "16744448"])
     (simp_all add: pow2_def)

lemma overshoot_ops_134: "Fin (511 / 512) * Fin 0 = Fin 0"
  by (simp add: times_f32_def rd_0)

lemma overshoot_ops_135: "Fin (511 / 512) * Fin (35 / 2) = Fin (17885 / 1024)"
  by (simp add: times_f32_def, rule rd_eqI [where e = "4" and k = "- 19" and n = "9157120"])
     (simp_all add: pow2_def)

lemma overshoot_ops_136: "Fin 5 + Fin (17885 / 1024) = Fin (23005 / 1024)"
  by (simp add: plus_f32_def, rule rd_eqI [where e = "4" and k = "- 19" and n = "11778560"])
     (simp_all add: pow2_def)

lemma overshoot_ops_137: "Fin (511 / 512) * Fin (23005 / 1024) = Fin (11755555 / 524288)"
  by (simp add: times_f32_def, rule rd_eqI [where e = "4" and k = "- 19" and n = "11755555"])
     (simp_all add: pow2_def)

lemma overshoot_ops_138: "Fin (511 / 512) * Fin 35 = Fin (17885 / 512)"
  by (simp add: times_f32_def, rule rd_eqI [where e = "5" and k = "- 18" and n = "9157120"])
     (simp_all add: pow2_def)

lemma overshoot_ops_139: "Fin 5 + Fin (17885 / 512) = Fin (20445 / 512)"
  by (simp add: plus_f32_def, rule rd_eqI [where e = "5" and k = "- 18" and n = "10467840"])
     (simp_all add: pow2_def)

lemma overshoot_ops_140:
  "Fin (11755555 / 524288) - Fin (11796479 / 524288) =
   Fin (- (10231 / 131072))"
  by (simp add: minus_f32_def, rule rd_eqI [where e = "- 4" and k = "- 27" and n = "- 10476544"])
     (simp_all add: pow2_def)

lemma overshoot_ops_141: "Fin 1 - Fin (255 / 256) = Fin (1 / 256)"
  by (simp add: minus_f32_def, rule rd_eqI [where e = "- 8" and k = "- 31" and n = "8388608"])
     (simp_all add: pow2_def)

lemma overshoot_ops_142:
  "Fin (- (10231 / 131072)) / Fin (20445 / 512) =
   Fin (- (8395583 / 4294967296))"
  by (simp add: divide_f32_def, rule rd_eqI [where e = "- 9" and k = "- 32" and n = "- 8395583"])
     (simp_all add: pow2_def)

lemma overshoot_ops_143:
  "Fin (511 / 512) - Fin (- (8395583 / 4294967296)) =
   Fin (4194311 / 4194304)"
  by (simp add: minus_f32_def, rule rd_eqI [where e = "0" and k = "- 23" and n = "8388622"])
     (simp_all add: pow2_def)

lemma overshoot_ops_144: "Fin (511 / 512) + Fin 1 = Fin (1023 / 512)"
  by (simp add: plus_f32_def, rule rd_eqI [where e = "0" and k = "- 23" and n = "16760832"])
     (simp_all add: pow2_def)

lemma overshoot_ops_145: "Fin (1 / 2) * Fin (1023 / 512) = Fin (1023 / 1024)"
  by (simp add: times_f32_def, rule rd_eqI [where e = "- 1" and k = "- 24" and n = "16760832"])
     (simp_all add: pow2_def)

lemma overshoot_ops_146: "Fin (1023 / 1024) * Fin 0 = Fin 0"
  by (simp add: times_f32_def rd_0)

lemma overshoot_ops_147: "Fin (1023 / 1024) * Fin (35 / 2) = Fin (35805 / 2048)"
  by (simp add: times_f32_def, rule rd_eqI [where e = "4" and k = "- 19" and n = "9166080"])
     (simp_all add: pow2_def)

lemma overshoot_ops_148: "Fin 5 + Fin (35805 / 2048) = Fin (46045 / 2048)"
  by (simp add: plus_f32_def, rule rd_eqI [where e = "4" and k = "- 19" and n = "11787520"])
     (simp_all add: pow2_def)

lemma overshoot_ops_149: "Fin (1023 / 1024) * Fin (46045 / 2048) = Fin (11776009 / 524288)"
  by (simp add: times_f32_def, rule rd_eqI [where e = "4" and k = "- 19" and n = "11776009"])
     (simp_all add: pow2_def)

lemma overshoot_ops_150: "Fin (1023 / 1024) * Fin 35 = Fin (35805 / 1024)"
  by (simp add: times_f32_def, rule rd_eqI [where e = "5" and k = "- 18" and n = "9166080"])
     (simp_all add: pow2_def)

lemma overshoot_ops_151: "Fin 5 + Fin (35805 / 1024) = Fin (40925 / 1024)"
  by (simp add: plus_f32_def, rule rd_eqI [where e = "5" and k = "- 18" and n = "10476800"])
     (simp_all add: pow2_def)

lemma overshoot_ops_152:
  "Fin (11776009 / 524288) - Fin (11796479 / 524288) =
   Fin (- (10235 / 262144))"
  by (simp add: minus_f32_def, rule rd_eqI [where e = "- 5" and k = "- 28" and n = "- 10480640"])
     (simp_all add: pow2_def)

lemma overshoot_ops_153: "Fin 1 - Fin (511 / 512) = Fin (1 / 512)"
  by (simp add: minus_f32_def, rule rd_eqI [where e = "- 9" and k = "- 32" and n = "8388608"])
     (simp_all add: pow2_def)

lemma overshoot_ops_154:
  "Fin (- (10235 / 262144)) / Fin (40925 / 1024) =
   Fin (- (8391683 / 8589934592))"
  by (simp add: divide_f32_def, rule rd_eqI [where e = "- 10" and k = "- 33" and n = "- 8391683"])
     (simp_all add: pow2_def)

lemma overshoot_ops_155:
  "Fin (1023 / 1024) - Fin (- (8391683 / 8589934592)) =
   Fin (8388611 / 8388608)"
  by (simp add: minus_f32_def, rule rd_eqI [where e = "0" and k = "- 23" and n = "8388611"])
     (simp_all add: pow2_def)

lemma overshoot_ops_156: "Fin (1023 / 1024) + Fin 1 = Fin (2047 / 1024)"
  by (simp add: plus_f32_def, rule rd_eqI [where e = "0" and k = "- 23" and n = "16769024"])
     (simp_all add: pow2_def)

lemma overshoot_ops_157: "Fin (1 / 2) * Fin (2047 / 1024) = Fin (2047 / 2048)"
  by (simp add: times_f32_def, rule rd_eqI [where e = "- 1" and k = "- 24" and n = "16769024"])
     (simp_all add: pow2_def)

lemma overshoot_ops_158: "Fin (2047 / 2048) * Fin 0 = Fin 0"
  by (simp add: times_f32_def rd_0)

lemma overshoot_ops_159: "Fin (2047 / 2048) * Fin (35 / 2) = Fin (71645 / 4096)"
  by (simp add: times_f32_def, rule rd_eqI [where e = "4" and k = "- 19" and n = "9170560"])
     (simp_all add: pow2_def)

lemma overshoot_ops_160: "Fin 5 + Fin (71645 / 4096) = Fin (92125 / 4096)"
  by (simp add: plus_f32_def, rule rd_eqI [where e = "4" and k = "- 19" and n = "11792000"])
     (simp_all add: pow2_def)

lemma overshoot_ops_161: "Fin (2047 / 2048) * Fin (92125 / 4096) = Fin (5893121 / 262144)"
  by (simp add: times_f32_def, rule rd_eqI [where e = "4" and k = "- 19" and n = "11786242"])
     (simp_all add: pow2_def)

lemma overshoot_ops_162: "Fin (2047 / 2048) * Fin 35 = Fin (71645 / 2048)"
  by (simp add: times_f32_def, rule rd_eqI [where e = "5" and k = "- 18" and n = "9170560"])
     (simp_all add: pow2_def)

lemma overshoot_ops_163: "Fin 5 + Fin (71645 / 2048) = Fin (81885 / 2048)"
  by (simp add: plus_f32_def, rule rd_eqI [where e = "5" and k = "- 18" and n = "10481280"])
     (simp_all add: pow2_def)

lemma overshoot_ops_164:
  "Fin (5893121 / 262144) - Fin (11796479 / 524288) =
   Fin (- (10237 / 524288))"
  by (simp add: minus_f32_def, rule rd_eqI [where e = "- 6" and k = "- 29" and n = "- 10482688"])
     (simp_all add: pow2_def)

lemma overshoot_ops_165: "Fin 1 - Fin (1023 / 1024) = Fin (1 / 1024)"
  by (simp add: minus_f32_def, rule rd_eqI [where e = "- 10" and k = "- 33" and n = "8388608"])
     (simp_all add: pow2_def)

lemma overshoot_ops_166:
  "Fin (- (10237 / 524288)) / Fin (81885 / 2048) =
   Fin (- (8389735 / 17179869184))"
  by (simp add: divide_f32_def, rule rd_eqI [where e = "- 11" and k = "- 34" and n = "- 8389735"])
     (simp_all add: pow2_def)

lemma overshoot_ops_167:
  "Fin (2047 / 2048) - Fin (- (8389735 / 17179869184)) =
   Fin (8388609 / 8388608)"
  by (simp add: minus_f32_def, rule rd_eqI [where e = "0" and k = "- 23" and n = "8388609"])
     (simp_all add: pow2_def)

lemma overshoot_ops_168: "Fin (2047 / 2048) + Fin 1 = Fin (4095 / 2048)"
  by (simp add: plus_f32_def, rule rd_eqI [where e = "0" and k = "- 23" and n = "16773120"])
     (simp_all add: pow2_def)

lemma overshoot_ops_169: "Fin (1 / 2) * Fin (4095 / 2048) = Fin (4095 / 4096)"
  by (simp add: times_f32_def, rule rd_eqI [where e = "- 1" and k = "- 24" and n = "16773120"])
     (simp_all add: pow2_def)

lemma overshoot_ops_170: "Fin (4095 / 4096) * Fin 0 = Fin 0"
  by (simp add: times_f32_def rd_0)

lemma overshoot_ops_171: "Fin (4095 / 4096) * Fin (35 / 2) = Fin (143325 / 8192)"
  by (simp add: times_f32_def, rule rd_eqI [where e = "4" and k = "- 19" and n = "9172800"])
     (simp_all add: pow2_def)

lemma overshoot_ops_172: "Fin 5 + Fin (143325 / 8192) = Fin (184285 / 8192)"
  by (simp add: plus_f32_def, rule rd_eqI [where e = "4" and k = "- 19" and n = "11794240"])
     (simp_all add: pow2_def)

lemma overshoot_ops_173: "Fin (4095 / 4096) * Fin (184285 / 8192) = Fin (11791361 / 524288)"
  by (simp add: times_f32_def, rule rd_eqI [where e = "4" and k = "- 19" and n = "11791361"])
     (simp_all add: pow2_def)

lemma overshoot_ops_174: "Fin (4095 / 4096) * Fin 35 = Fin (143325 / 4096)"
  by (simp add: times_f32_def, rule rd_eqI [where e = "5" and k = "- 18" and n = "9172800"])
     (simp_all add: pow2_def)

lemma overshoot_ops_175: "Fin 5 + Fin (143325 / 4096) = Fin (163805 / 4096)"
  by (simp add: plus_f32_def, rule rd_eqI [where e = "5" and k = "- 18" and n = "10483520"])
     (simp_all add: pow2_def)

lemma overshoot_ops_176:
  "Fin (11791361 / 524288) - Fin (11796479 / 524288) =
   Fin (- (2559 / 262144))"
  by (simp add: minus_f32_def, rule rd_eqI [where e = "- 7" and k = "- 30" and n = "- 10481664"])
     (simp_all add: pow2_def)

lemma overshoot_ops_177: "Fin 1 - Fin (2047 / 2048) = Fin (1 / 2048)"
  by (simp add: minus_f32_def, rule rd_eqI [where e = "- 11" and k = "- 34" and n = "8388608"])
     (simp_all add: pow2_def)

lemma overshoot_ops_178:
  "Fin (- (2559 / 262144)) / Fin (163805 / 4096) =
   Fin (- (8387123 / 34359738368))"
  by (simp add: divide_f32_def, rule rd_eqI [where e = "- 13" and k = "- 36" and n = "- 16774246"])
     (simp_all add: pow2_def)

lemma overshoot_ops_179:
  "Fin (4095 / 4096) - Fin (- (8387123 / 34359738368)) =
   Fin (16777215 / 16777216)"
  by (simp add: minus_f32_def, rule rd_eqI [where e = "- 1" and k = "- 24" and n = "16777215"])
     (simp_all add: pow2_def)

lemma overshoot_ops_180: "Fin (16777215 / 16777216) * Fin 0 = Fin 0"
  by (simp add: times_f32_def rd_0)

lemma overshoot_ops_181: "Fin (16777215 / 16777216) * Fin (35 / 2) = Fin (9175039 / 524288)"
  by (simp add: times_f32_def, rule rd_eqI [where e = "4" and k = "- 19" and n = "9175039"])
     (simp_all add: pow2_def)

lemma overshoot_ops_182: "Fin 5 + Fin (9175039 / 524288) = Fin (11796479 / 524288)"
  by (simp add: plus_f32_def, rule rd_eqI [where e = "4" and k = "- 19" and n = "11796479"])
     (simp_all add: pow2_def)

lemma overshoot_ops_183:
  "Fin (16777215 / 16777216) * Fin (11796479 / 524288) =
   Fin (5898239 / 262144)"
  by (simp add: times_f32_def, rule rd_eqI [where e = "4" and k = "- 19" and n = "11796478"])
     (simp_all add: pow2_def)

lemma overshoot_ops_184: "Fin (16777215 / 16777216) * Fin 35 = Fin (9175039 / 262144)"
  by (simp add: times_f32_def, rule rd_eqI [where e = "5" and k = "- 18" and n = "9175039"])
     (simp_all add: pow2_def)

lemma overshoot_ops_185: "Fin 5 + Fin (9175039 / 262144) = Fin (10485759 / 262144)"
  by (simp add: plus_f32_def, rule rd_eqI [where e = "5" and k = "- 18" and n = "10485759"])
     (simp_all add: pow2_def)

lemma overshoot_ops_186: "Fin (5898239 / 262144) - Fin (11796479 / 524288) = Fin (- (1 / 524288))"
  by (simp add: minus_f32_def, rule rd_eqI [where e = "- 19" and k = "- 42" and n = "- 8388608"])
     (simp_all add: pow2_def)

lemma overshoot_ops_187: "Fin 1 - Fin (4095 / 4096) = Fin (1 / 4096)"
  by (simp add: minus_f32_def, rule rd_eqI [where e = "- 12" and k = "- 35" and n = "8388608"])
     (simp_all add: pow2_def)

lemma overshoot_ops_188:
  "Fin (- (1 / 524288)) / Fin (10485759 / 262144) =
   Fin (- (6710887 / 140737488355328))"
  by (simp add: divide_f32_def, rule rd_eqI [where e = "- 25" and k = "- 48" and n = "- 13421774"])
     (simp_all add: pow2_def)

lemma overshoot_ops_189: "Fin (16777215 / 16777216) - Fin (- (6710887 / 140737488355328)) = Fin 1"
  by (simp add: minus_f32_def, rule rd_eqI [where e = "- 1" and k = "- 24" and n = "16777216"])
     (simp_all add: pow2_def)

lemma overshoot_ops_190: "Fin (16777215 / 16777216) + Fin 1 = Fin 2"
  by (simp add: plus_f32_def, rule rd_eqI [where e = "0" and k = "- 23" and n = "16777216"])
     (simp_all add: pow2_def)

lemma overshoot_ops_191: "Fin (1 / 2) * Fin 2 = Fin 1"
  by (simp add: times_f32_def, rule rd_eqI [where e = "0" and k = "- 23" and n = "8388608"])
     (simp_all add: pow2_def)

lemma overshoot_ops_192: "Fin 1 * Fin 0 = Fin 0"
  by (simp add: times_f32_def rd_0)

lemma overshoot_ops_193: "Fin 1 * Fin (35 / 2) = Fin (35 / 2)"
  by (simp add: times_f32_def, rule rd_eqI [where e = "4" and k = "- 19" and n = "9175040"])
     (simp_all add: pow2_def)

lemma overshoot_ops_194: "Fin 1 * Fin (45 / 2) = Fin (45 / 2)"
  by (simp add: times_f32_def, rule rd_eqI [where e = "4" and k = "- 19" and n = "11796480"])
     (simp_all add: pow2_def)

lemma overshoot_ops_195: "Fin 1 * Fin 35 = Fin 35"
  by (simp add: times_f32_def, rule rd_eqI [where e = "5" and k = "- 18" and n = "9175040"])
     (simp_all add: pow2_def)

lemma overshoot_ops_196: "Fin 5 + Fin 35 = Fin 40"
  by (simp add: plus_f32_def, rule rd_eqI [where e = "5" and k = "- 18" and n = "10485760"])
     (simp_all add: pow2_def)

lemma overshoot_ops_197: "Fin (45 / 2) - Fin (11796479 / 524288) = Fin (1 / 524288)"
  by (simp add: minus_f32_def, rule rd_eqI [where e = "- 19" and k = "- 42" and n = "8388608"])
     (simp_all add: pow2_def)

lemma overshoot_ops_198: "Fin 1 - Fin (16777215 / 16777216) = Fin (1 / 16777216)"
  by (simp add: minus_f32_def, rule rd_eqI [where e = "- 24" and k = "- 47" and n = "8388608"])
     (simp_all add: pow2_def)

lemma overshoot_ops_199: "Fin (13421773 / 4194304) * Fin 1 = Fin (13421773 / 4194304)"
  by (simp add: times_f32_def, rule rd_eqI [where e = "1" and k = "- 22" and n = "13421773"])
     (simp_all add: pow2_def)

lemma overshoot_ops_200: "Fin (- 3) + Fin (13421773 / 4194304) = Fin (838861 / 4194304)"
  by (simp add: plus_f32_def, rule rd_eqI [where e = "- 3" and k = "- 26" and n = "13421776"])
     (simp_all add: pow2_def)

lemma overshoot_ops_201: "Fin 40 / Fin 72 = Fin (2330169 / 4194304)"
  by (simp add: divide_f32_def, rule rd_eqI [where e = "- 1" and k = "- 24" and n = "9320676"])
     (simp_all add: pow2_def)

lemmas overshoot_ops =
  overshoot_ops_0 overshoot_ops_1 overshoot_ops_2 overshoot_ops_3 overshoot_ops_4 overshoot_ops_5
  overshoot_ops_6 overshoot_ops_7 overshoot_ops_8 overshoot_ops_9 overshoot_ops_10
  overshoot_ops_11 overshoot_ops_12 overshoot_ops_13 overshoot_ops_14 overshoot_ops_15
  overshoot_ops_16 overshoot_ops_17 overshoot_ops_18 overshoot_ops_19 overshoot_ops_20
  overshoot_ops_21 overshoot_ops_22 overshoot_ops_23 overshoot_ops_24 overshoot_ops_25
  overshoot_ops_26 overshoot_ops_27 overshoot_ops_28 overshoot_ops_29 overshoot_ops_30
  overshoot_ops_31 overshoot_ops_32 overshoot_ops_33 overshoot_ops_34 overshoot_ops_35
  overshoot_ops_36 overshoot_ops_37 overshoot_ops_38 overshoot_ops_39 overshoot_ops_40
  overshoot_ops_41 overshoot_ops_42 overshoot_ops_43 overshoot_ops_44 overshoot_ops_45
  overshoot_ops_46 overshoot_ops_47 overshoot_ops_48 overshoot_ops_49 overshoot_ops_50
  overshoot_ops_51 overshoot_ops_52 overshoot_ops_53 overshoot_ops_54 overshoot_ops_55
  overshoot_ops_56 overshoot_ops_57 overshoot_ops_58 overshoot_ops_59 overshoot_ops_60
  overshoot_ops_61 overshoot_ops_62 overshoot_ops_63 overshoot_ops_64 overshoot_ops_65
  overshoot_ops_66 overshoot_ops_67 overshoot_ops_68 overshoot_ops_69 overshoot_ops_70
  overshoot_ops_71 overshoot_ops_72 overshoot_ops_73 overshoot_ops_74 overshoot_ops_75
  overshoot_ops_76 overshoot_ops_77 overshoot_ops_78 overshoot_ops_79 overshoot_ops_80
  overshoot_ops_81 overshoot_ops_82 overshoot_ops_83 overshoot_ops_84 overshoot_ops_85
  overshoot_ops_86 overshoot_ops_87 overshoot_ops_88 overshoot_ops_89 overshoot_ops_90
  overshoot_ops_91 overshoot_ops_92 overshoot_ops_93 overshoot_ops_94 overshoot_ops_95
  overshoot_ops_96 overshoot_ops_97 overshoot_ops_98 overshoot_ops_99 overshoot_ops_100
  overshoot_ops_101 overshoot_ops_102 overshoot_ops_103 overshoot_ops_104 overshoot_ops_105
  overshoot_ops_106 overshoot_ops_107 overshoot_ops_108 overshoot_ops_109 overshoot_ops_110
  overshoot_ops_111 overshoot_ops_112 overshoot_ops_113 overshoot_ops_114 overshoot_ops_115
  overshoot_ops_116 overshoot_ops_117 overshoot_ops_118 overshoot_ops_119 overshoot_ops_120
  overshoot_ops_121 overshoot_ops_122 overshoot_ops_123 overshoot_ops_124 overshoot_ops_125
  overshoot_ops_126 overshoot_ops_127 overshoot_ops_128 overshoot_ops_129 overshoot_ops_130
  overshoot_ops_131 overshoot_ops_132 overshoot_ops_133 overshoot_ops_134 overshoot_ops_135
  overshoot_ops_136 overshoot_ops_137 overshoot_ops_138 overshoot_ops_139 overshoot_ops_140
  overshoot_ops_141 overshoot_ops_142 overshoot_ops_143 overshoot_ops_144 overshoot_ops_145
  overshoot_ops_146 overshoot_ops_147 overshoot_ops_148 overshoot_ops_149 overshoot_ops_150
  overshoot_ops_151 overshoot_ops_152 overshoot_ops_153 overshoot_ops_154 overshoot_ops_155
  overshoot_ops_156 overshoot_ops_157 overshoot_ops_158 overshoot_ops_159 overshoot_ops_160
  overshoot_ops_161 overshoot_ops_162 overshoot_ops_163 overshoot_ops_164 overshoot_ops_165
  overshoot_ops_166 overshoot_ops_167 overshoot_ops_168 overshoot_ops_169 overshoot_ops_170
  overshoot_ops_171 overshoot_ops_172 overshoot_ops_173 overshoot_ops_174 overshoot_ops_175
  overshoot_ops_176 overshoot_ops_177 overshoot_ops_178 overshoot_ops_179 overshoot_ops_180
  overshoot_ops_181 overshoot_ops_182 overshoot_ops_183 overshoot_ops_184 overshoot_ops_185
  overshoot_ops_186 overshoot_ops_187 overshoot_ops_188 overshoot_ops_189 overshoot_ops_190
  overshoot_ops_191 overshoot_ops_192 overshoot_ops_193 overshoot_ops_194 overshoot_ops_195
  overshoot_ops_196 overshoot_ops_197 overshoot_ops_198 overshoot_ops_199 overshoot_ops_200
  overshoot_ops_201

lemma overshoot_sqrt: "fsqrt (Fin (13107199 / 8192)) = Fin 40"
proof -
  have a: "pow2 (5) \<le> sqrt (13107199 / 8192)"
    by (rule real_le_rsqrt) (simp add: pow2_def power2_eq_square)
  have b: "sqrt (13107199 / 8192) < pow2 (5 + 1)"
    by (rule real_less_lsqrt) (simp_all add: pow2_def power2_eq_square)
  have c: "20971519 / 524288 < sqrt (13107199 / 8192)"
    by (rule real_less_rsqrt) (simp add: power2_eq_square)
  have d: "sqrt (13107199 / 8192) < 20971521 / 524288"
    by (rule real_less_lsqrt) (simp_all add: power2_eq_square)
  have r: "\<bar>sqrt (13107199 / 8192) / pow2 (- 18) - of_int (10485760)\<bar> < 1 / 2"
    unfolding abs_less_iff using c d by (simp add: pow2_def)
  have "rd (sqrt (13107199 / 8192)) = Fin 40"
  proof (rule rd_eqI [where e = "5" and k = "- 18" and n = "10485760"])
    show "pow2 (5) \<le> \<bar>sqrt (13107199 / 8192)\<bar>" using a by simp
    show "\<bar>sqrt (13107199 / 8192)\<bar> < pow2 (5 + 1)" using b by simp
    show "\<bar>sqrt (13107199 / 8192) / pow2 (- 18) - of_int (10485760)\<bar> < 1 / 2 \<or>
          (\<bar>sqrt (13107199 / 8192) / pow2 (- 18) - of_int (10485760)\<bar> = 1 / 2 \<and> even (10485760 :: int))"
      using r by (rule disjI1)
  qed (simp_all add: pow2_def)
  then show ?thesis by simp
qed

lemma overshoot_cdf:
  "IntegrateCatmullRom_f32 [Fin (- 3), Fin (13421773 / 67108864)] [Fin 5, Fin 40] [0, 0] =
   Inr (Fin 72, [Fin 0, Fin 72])"
  by (simp add: IntegrateCatmullRom_f32_def IntegrateCatmullRom_body_f32_def upt_conv_Cons
      f32_step overshoot_ops)

lemma overshoot_round_0:
  "SampleCatmullRom_loop_f32 (Fin 5) (Fin 40) (Fin 35) (Fin 35) (Fin (11796479 / 524288))
     (Fin 0) (Fin 1) (Fin 1) =
   SampleCatmullRom_loop_f32 (Fin 5) (Fin 40) (Fin 35) (Fin 35) (Fin (11796479 / 524288))
     (Fin (1 / 2)) (Fin 1) (Fin (5009863 / 4194304))"
  by (subst SampleCatmullRom_loop_f32.simps) (simp add: f32_step overshoot_ops)

lemma overshoot_round_1:
  "SampleCatmullRom_loop_f32 (Fin 5) (Fin 40) (Fin 35) (Fin 35) (Fin (11796479 / 524288))
     (Fin (1 / 2)) (Fin 1) (Fin (5009863 / 4194304)) =
   SampleCatmullRom_loop_f32 (Fin 5) (Fin 40) (Fin 35) (Fin 35) (Fin (11796479 / 524288))
     (Fin (3 / 4)) (Fin 1) (Fin (8682209 / 8388608))"
  by (subst SampleCatmullRom_loop_f32.simps) (simp add: f32_step overshoot_ops)

lemma overshoot_round_2:
  "SampleCatmullRom_loop_f32 (Fin 5) (Fin 40) (Fin 35) (Fin 35) (Fin (11796479 / 524288))
     (Fin (3 / 4)) (Fin 1) (Fin (8682209 / 8388608)) =
   SampleCatmullRom_loop_f32 (Fin 5) (Fin 40) (Fin 35) (Fin 35) (Fin (11796479 / 524288))
     (Fin (7 / 8)) (Fin 1) (Fin (4226497 / 4194304))"
  by (subst SampleCatmullRom_loop_f32.simps) (simp add: f32_step overshoot_ops)

lemma overshoot_round_3:
  "SampleCatmullRom_loop_f32 (Fin 5) (Fin 40) (Fin 35) (Fin 35) (Fin (11796479 / 524288))
     (Fin (7 / 8)) (Fin 1) (Fin (4226497 / 4194304)) =
   SampleCatmullRom_loop_f32 (Fin 5) (Fin 40) (Fin 35) (Fin 35) (Fin (11796479 / 524288))
     (Fin (15 / 16)) (Fin 1) (Fin (8403773 / 8388608))"
  by (subst SampleCatmullRom_loop_f32.simps) (simp add: f32_step overshoot_ops)

lemma overshoot_round_4:
  "SampleCatmullRom_loop_f32 (Fin 5) (Fin 40) (Fin 35) (Fin 35) (Fin (11796479 / 524288))
     (Fin (15 / 16)) (Fin 1) (Fin (8403773 / 8388608)) =
   SampleCatmullRom_loop_f32 (Fin 5) (Fin 40) (Fin 35) (Fin 35) (Fin (11796479 / 524288))
     (Fin (31 / 32)) (Fin 1) (Fin (2098073 / 2097152))"
  by (subst SampleCatmullRom_loop_f32.simps) (simp add: f32_step overshoot_ops)

lemma overshoot_round_5:
  "SampleCatmullRom_loop_f32 (Fin 5) (Fin 40) (Fin 35) (Fin 35) (Fin (11796479 / 524288))
     (Fin (31 / 32)) (Fin 1) (Fin (2098073 / 2097152)) =
   SampleCatmullRom_loop_f32 (Fin 5) (Fin 40) (Fin 35) (Fin 35) (Fin (11796479 / 524288))
     (Fin (63 / 64)) (Fin 1) (Fin (2097379 / 2097152))"
  by (subst SampleCatmullRom_loop_f32.simps) (simp add: f32_step overshoot_ops)

lemma overshoot_round_6:
  "SampleCatmullRom_loop_f32 (Fin 5) (Fin 40) (Fin 35) (Fin 35) (Fin (11796479 / 524288))
     (Fin (63 / 64)) (Fin 1) (Fin (2097379 / 2097152)) =
   SampleCatmullRom_loop_f32 (Fin 5) (Fin 40) (Fin 35) (Fin 35) (Fin (11796479 / 524288))
     (Fin (127 / 128)) (Fin 1) (Fin (8388833 / 8388608))"
  by (subst SampleCatmullRom_loop_f32.simps) (simp add: f32_step overshoot_ops)

lemma overshoot_round_7:
  "SampleCatmullRom_loop_f32 (Fin 5) (Fin 40) (Fin 35) (Fin 35) (Fin (11796479 / 524288))
     (Fin (127 / 128)) (Fin 1) (Fin (8388833 / 8388608)) =
   SampleCatmullRom_loop_f32 (Fin 5) (Fin 40) (Fin 35) (Fin 35) (Fin (11796479 / 524288))
     (Fin (255 / 256)) (Fin 1) (Fin (1048583 / 1048576))"
  by (subst SampleCatmullRom_loop_f32.simps) (simp add: f32_step overshoot_ops)

lemma overshoot_round_8:
  "SampleCatmullRom_loop_f32 (Fin 5) (Fin 40) (Fin 35) (Fin 35) (Fin (11796479 / 524288))
     (Fin (255 / 256)) (Fin 1) (Fin (1048583 / 1048576)) =
   SampleCatmullRom_loop_f32 (Fin 5) (Fin 40) (Fin 35) (Fin 35) (Fin (11796479 / 524288))
     (Fin (511 / 512)) (Fin 1) (Fin (4194311 / 4194304))"
  by (subst SampleCatmullRom_loop_f32.simps) (simp add: f32_step overshoot_ops)

lemma overshoot_round_9:
  "SampleCatmullRom_loop_f32 (Fin 5) (Fin 40) (Fin 35) (Fin 35) (Fin (11796479 / 524288))
     (Fin (511 / 512)) (Fin 1) (Fin (4194311 / 4194304)) =
   SampleCatmullRom_loop_f32 (Fin 5) (Fin 40) (Fin 35) (Fin 35) (Fin (11796479 / 524288))
     (Fin (1023 / 1024)) (Fin 1) (Fin (8388611 / 8388608))"
  by (subst SampleCatmullRom_loop_f32.simps) (simp add: f32_step overshoot_ops)

lemma overshoot_round_10:
  "SampleCatmullRom_loop_f32 (Fin 5) (Fin 40) (Fin 35) (Fin 35) (Fin (11796479 / 524288))
     (Fin (1023 / 1024)) (Fin 1) (Fin (8388611 / 8388608)) =
   SampleCatmullRom_loop_f32 (Fin 5) (Fin 40) (Fin 35) (Fin 35) (Fin (11796479 / 524288))
     (Fin (2047 / 2048)) (Fin 1) (Fin (8388609 / 8388608))"
  by (subst SampleCatmullRom_loop_f32.simps) (simp add: f32_step overshoot_ops)

lemma overshoot_round_11:
  "SampleCatmullRom_loop_f32 (Fin 5) (Fin 40) (Fin 35) (Fin 35) (Fin (11796479 / 524288))
     (Fin (2047 / 2048)) (Fin 1) (Fin (8388609 / 8388608)) =
   SampleCatmullRom_loop_f32 (Fin 5) (Fin 40) (Fin 35) (Fin 35) (Fin (11796479 / 524288))
     (Fin (4095 / 4096)) (Fin 1) (Fin (16777215 / 16777216))"
  by (subst SampleCatmullRom_loop_f32.simps) (simp add: f32_step overshoot_ops)

lemma overshoot_round_12:
  "SampleCatmullRom_loop_f32 (Fin 5) (Fin 40) (Fin 35) (Fin 35) (Fin (11796479 / 524288))
     (Fin (4095 / 4096)) (Fin 1) (Fin (16777215 / 16777216)) =
   SampleCatmullRom_loop_f32 (Fin 5) (Fin 40) (Fin 35) (Fin 35) (Fin (11796479 / 524288))
     (Fin (16777215 / 16777216)) (Fin 1) (Fin 1)"
  by (subst SampleCatmullRom_loop_f32.simps) (simp add: f32_step overshoot_ops)

lemma overshoot_round_13:
  "SampleCatmullRom_loop_f32 (Fin 5) (Fin 40) (Fin 35) (Fin 35) (Fin (11796479 / 524288))
     (Fin (16777215 / 16777216)) (Fin 1) (Fin 1) =
   Some (Fin 1, Fin 40)"
  by (subst SampleCatmullRom_loop_f32.simps) (simp add: f32_step overshoot_ops)

lemma overshoot_loop:
  "SampleCatmullRom_loop_f32 (Fin 5) (Fin 40) (Fin 35) (Fin 35) (Fin (11796479 / 524288))
     (Fin 0) (Fin 1) (Fin 1) = Some (Fin 1, Fin 40)"
  by (simp only: overshoot_round_0 overshoot_round_1 overshoot_round_2 overshoot_round_3
      overshoot_round_4 overshoot_round_5 overshoot_round_6 overshoot_round_7
      overshoot_round_8 overshoot_round_9 overshoot_round_10 overshoot_round_11
      overshoot_round_12 overshoot_round_13)

lemma overshoot_sample:
  "SampleCatmullRom_f32 [Fin (- 3), Fin (13421773 / 67108864)] [Fin 5, Fin 40] [Fin 0, Fin 72]
     (Fin (16777215 / 16777216)) =
   Some (Inr (Fin (838861 / 4194304), Fin 40, Fin (2330169 / 4194304)))"
  unfolding SampleCatmullRom_f32_def
  by (simp add: GetIntArrayerval_2 elt_f_def SafeSqrt_f32_def overshoot_sqrt overshoot_loop
      f32_step overshoot_ops del: fsqrt.simps)

lemma overshoot_inputs_binary32:
  "is_binary32 (Fin (13421773 / 67108864)) \<and> is_binary32 (Fin (16777215 / 16777216))"
proof -
  have "rd (13421773 / 67108864) = Fin (13421773 / 67108864)"
    by (rule rd_eqI [where e = "- 3" and k = "- 26" and n = 13421773]) (simp_all add: pow2_def)
  moreover have "rd (16777215 / 16777216) = Fin (16777215 / 16777216)"
    by (rule rd_eqI [where e = "- 1" and k = "- 24" and n = 16777215]) (simp_all add: pow2_def)
  ultimately show ?thesis by (simp add: is_binary32_def)
qed

text \<open>
  Claim C4 fails on the program. The nodes \<open>{-3, 0.2f}\<close> are strictly increasing, the
  values \<open>{5, 40}\<close> are positive, \<open>{0, 72}\<close> is the cdf that \<open>IntegrateCatmullRom\<close> computes
  for them, and \<open>u = 1 - 2^-24\<close> is the largest binary32 number below 1. In binary32
  \<open>SampleCatmullRom\<close> returns after 14 rounds with \<open>t = 1\<close> (the midpoint of the last
  bracket rounds to its upper end), and the position \<open>x0 + width * t\<close> is
  \<open>838861 / 2^22 = 0.20000005\<close>, above \<open>x.back() = 0.2f = 13421773 / 2^26\<close>: the width
  \<open>0.2f + 3\<close> was rounded up.
\<close>

theorem SampleCatmullRom_f32_position_beyond_last_node:
  "is_binary32 (Fin (13421773 / 67108864)) \<and> is_binary32 (Fin (16777215 / 16777216))
   \<and> IntegrateCatmullRom_f32 [Fin (- 3), Fin (13421773 / 67108864)] [Fin 5, Fin 40] [0, 0] =
       Inr (Fin 72, [Fin 0, Fin 72])
   \<and> SampleCatmullRom_f32 [Fin (- 3), Fin (13421773 / 67108864)] [Fin 5, Fin 40] [Fin 0, Fin 72]
         (Fin (16777215 / 16777216)) =
       Some (Inr (Fin (838861 / 4194304), Fin 40, Fin (2330169 / 4194304)))
   \<and> \<not> Fin (838861 / 4194304) \<le> last [Fin (- 3), Fin (13421773 / 67108864)]"
  using overshoot_inputs_binary32 overshoot_cdf overshoot_sample by (simp add: less_eq_f32_def)

theorem SampleCatmullRom_f32_position_beyond_last_node_witness:
  "\<exists>pos fval pdf.
     SampleCatmullRom_f32 [Fin (- 3), Fin (13421773 / 67108864)] [Fin 5, Fin 40] [Fin 0, Fin 72]
       (Fin (16777215 / 16777216)) = Some (Inr (pos, fval, pdf))
     \<and> \<not> pos \<le> last [Fin (- 3), Fin (13421773 / 67108864)]"
  using SampleCatmullRom_f32_position_beyond_last_node by blast

section \<open>Spline sampling in binary32: a loop that does not return\<close>

text \<open>
  The run of \<open>SampleCatmullRom2D\<close> on the 2 x 2 table with the rows \<open>{1, 100}\<close> over the
  nodes \<open>{0, 1}\<close> in both dimensions, with \<open>alpha = 0\<close> and \<open>u = 1/2\<close>. The weights are
  \<open>{0, 1, 0, 0}\<close> with offset \<open>-1\<close>, so the interpolated row is \<open>{1, 100}\<close> with the cdf
  \<open>{0, 50.5}\<close>. The initial guess \<open>t\<close> lies in the bracket \<open>[0, 1]\<close>; its residual
  \<open>Fhat - u\<close> is \<open>-2^-19\<close>, not below the tolerance \<open>1e-6f\<close>, and the Newton step
  \<open>(Fhat - u) / fhat\<close> is too small to change \<open>t\<close>. From the second round on the state
  is \<open>a = t\<close>, \<open>b = 1\<close> with the same \<open>t\<close>, which the test \<open>!(t >= a && t <= b)\<close> accepts:
  the round repeats.
\<close>

lemma hang_ops_0: "Fin 0 - Fin 0 = Fin 0"
  by (simp add: minus_f32_def rd_0)

lemma hang_ops_1: "Fin 1 - Fin 0 = Fin 1"
  by (simp add: minus_f32_def, rule rd_eqI [where e = "0" and k = "- 23" and n = "8388608"])
     (simp_all add: pow2_def)

lemma hang_ops_2: "Fin 0 / Fin 1 = Fin 0"
  by (simp add: divide_f32_def rd_0)

lemma hang_ops_3: "Fin 0 * Fin 0 = Fin 0"
  by (simp add: times_f32_def rd_0)

lemma hang_ops_4: "Fin 2 * Fin 0 = Fin 0"
  by (simp add: times_f32_def rd_0)

lemma hang_ops_5: "Fin 3 * Fin 0 = Fin 0"
  by (simp add: times_f32_def rd_0)

lemma hang_ops_6: "Fin 0 + Fin 1 = Fin 1"
  by (simp add: plus_f32_def, rule rd_eqI [where e = "0" and k = "- 23" and n = "8388608"])
     (simp_all add: pow2_def)

lemma hang_ops_7: "Fin (- 2) * Fin 0 = Fin 0"
  by (simp add: times_f32_def rd_0)

lemma hang_ops_8: "Fin 0 + Fin 0 = Fin 0"
  by (simp add: plus_f32_def rd_0)

lemma hang_ops_9: "Fin (101 / 2) * Fin 1 = Fin (101 / 2)"
  by (simp add: times_f32_def, rule rd_eqI [where e = "5" and k = "- 18" and n = "13238272"])
     (simp_all add: pow2_def)

lemma hang_ops_10: "Fin 0 + Fin (101 / 2) = Fin (101 / 2)"
  by (simp add: plus_f32_def, rule rd_eqI [where e = "5" and k = "- 18" and n = "13238272"])
     (simp_all add: pow2_def)

lemma hang_ops_11: "Fin (1 / 2) * Fin (101 / 2) = Fin (101 / 4)"
  by (simp add: times_f32_def, rule rd_eqI [where e = "4" and k = "- 19" and n = "13238272"])
     (simp_all add: pow2_def)

lemma hang_ops_12: "Fin 0 * Fin 1 = Fin 0"
  by (simp add: times_f32_def rd_0)

lemma hang_ops_13: "Fin 1 * Fin 1 = Fin 1"
  by (simp add: times_f32_def, rule rd_eqI [where e = "0" and k = "- 23" and n = "8388608"])
     (simp_all add: pow2_def)

lemma hang_ops_14: "Fin 100 * Fin 1 = Fin 100"
  by (simp add: times_f32_def, rule rd_eqI [where e = "6" and k = "- 17" and n = "13107200"])
     (simp_all add: pow2_def)

lemma hang_ops_15: "Fin 0 + Fin 100 = Fin 100"
  by (simp add: plus_f32_def, rule rd_eqI [where e = "6" and k = "- 17" and n = "13107200"])
     (simp_all add: pow2_def)

lemma hang_ops_16: "Fin (101 / 4) - Fin 0 = Fin (101 / 4)"
  by (simp add: minus_f32_def, rule rd_eqI [where e = "4" and k = "- 19" and n = "13238272"])
     (simp_all add: pow2_def)

lemma hang_ops_17: "Fin (101 / 4) / Fin 1 = Fin (101 / 4)"
  by (simp add: divide_f32_def, rule rd_eqI [where e = "4" and k = "- 19" and n = "13238272"])
     (simp_all add: pow2_def)

lemma hang_ops_18: "Fin 100 - Fin 1 = Fin 99"
  by (simp add: minus_f32_def, rule rd_eqI [where e = "6" and k = "- 17" and n = "12976128"])
     (simp_all add: pow2_def)

lemma hang_ops_19: "Fin 2 * Fin (101 / 4) = Fin (101 / 2)"
  by (simp add: times_f32_def, rule rd_eqI [where e = "5" and k = "- 18" and n = "13238272"])
     (simp_all add: pow2_def)

lemma hang_ops_20: "Fin (101 / 2) * Fin 99 = Fin (9999 / 2)"
  by (simp add: times_f32_def, rule rd_eqI [where e = "12" and k = "- 11" and n = "10238976"])
     (simp_all add: pow2_def)

lemma hang_ops_21: "Fin 1 + Fin (9999 / 2) = Fin (10001 / 2)"
  by (simp add: plus_f32_def, rule rd_eqI [where e = "12" and k = "- 11" and n = "10241024"])
     (simp_all add: pow2_def)

lemma hang_ops_22: "Fin 1 - Fin (9268653 / 131072) = Fin (- (9137581 / 131072))"
  by (simp add: minus_f32_def, rule rd_eqI [where e = "6" and k = "- 17" and n = "- 9137581"])
     (simp_all add: pow2_def)

lemma hang_ops_23: "Fin 1 - Fin 100 = Fin (- 99)"
  by (simp add: minus_f32_def, rule rd_eqI [where e = "6" and k = "- 17" and n = "- 12976128"])
     (simp_all add: pow2_def)

lemma hang_ops_24: "Fin (- (9137581 / 131072)) / Fin (- 99) = Fin (5907123 / 8388608)"
  by (simp add: divide_f32_def, rule rd_eqI [where e = "- 1" and k = "- 24" and n = "11814246"])
     (simp_all add: pow2_def)

lemma hang_ops_25: "Fin (1 / 2) * Fin 99 = Fin (99 / 2)"
  by (simp add: times_f32_def, rule rd_eqI [where e = "5" and k = "- 18" and n = "12976128"])
     (simp_all add: pow2_def)

lemma hang_ops_26: "Fin 1 / Fin 3 = Fin (11184811 / 33554432)"
  by (simp add: divide_f32_def, rule rd_eqI [where e = "- 2" and k = "- 25" and n = "11184811"])
     (simp_all add: pow2_def)

lemma hang_ops_27: "Fin (- 2) * Fin 99 = Fin (- 198)"
  by (simp add: times_f32_def, rule rd_eqI [where e = "7" and k = "- 16" and n = "- 12976128"])
     (simp_all add: pow2_def)

lemma hang_ops_28: "Fin (- 198) - Fin 99 = Fin (- 297)"
  by (simp add: minus_f32_def, rule rd_eqI [where e = "8" and k = "- 15" and n = "- 9732096"])
     (simp_all add: pow2_def)

lemma hang_ops_29: "Fin (11184811 / 33554432) * Fin (- 297) = Fin (- 99)"
  by (simp add: times_f32_def, rule rd_eqI [where e = "6" and k = "- 17" and n = "- 12976128"])
     (simp_all add: pow2_def)

lemma hang_ops_30: "Fin (- 99) + Fin 100 = Fin 1"
  by (simp add: plus_f32_def, rule rd_eqI [where e = "0" and k = "- 23" and n = "8388608"])
     (simp_all add: pow2_def)

lemma hang_ops_31: "Fin 1 - Fin 1 = Fin 0"
  by (simp add: minus_f32_def rd_0)

lemma hang_ops_32: "Fin 99 + Fin 99 = Fin 198"
  by (simp add: plus_f32_def, rule rd_eqI [where e = "7" and k = "- 16" and n = "12976128"])
     (simp_all add: pow2_def)

lemma hang_ops_33: "Fin (1 / 4) * Fin 198 = Fin (99 / 2)"
  by (simp add: times_f32_def, rule rd_eqI [where e = "5" and k = "- 18" and n = "12976128"])
     (simp_all add: pow2_def)

lemma hang_ops_34: "Fin (1 / 2) * Fin (- 99) = Fin (- (99 / 2))"
  by (simp add: times_f32_def, rule rd_eqI [where e = "5" and k = "- 18" and n = "- 12976128"])
     (simp_all add: pow2_def)

lemma hang_ops_35: "Fin (99 / 2) + Fin (- (99 / 2)) = Fin 0"
  by (simp add: plus_f32_def rd_0)

lemma hang_ops_36: "Fin (5907123 / 8388608) * Fin 0 = Fin 0"
  by (simp add: times_f32_def rd_0)

lemma hang_ops_37: "Fin (99 / 2) + Fin 0 = Fin (99 / 2)"
  by (simp add: plus_f32_def, rule rd_eqI [where e = "5" and k = "- 18" and n = "12976128"])
     (simp_all add: pow2_def)

lemma hang_ops_38: "Fin (5907123 / 8388608) * Fin (99 / 2) = Fin (9137581 / 262144)"
  by (simp add: times_f32_def, rule rd_eqI [where e = "5" and k = "- 18" and n = "9137581"])
     (simp_all add: pow2_def)

lemma hang_ops_39: "Fin 1 + Fin (9137581 / 262144) = Fin (9399725 / 262144)"
  by (simp add: plus_f32_def, rule rd_eqI [where e = "5" and k = "- 18" and n = "9399725"])
     (simp_all add: pow2_def)

lemma hang_ops_40: "Fin (5907123 / 8388608) * Fin (9399725 / 262144) = Fin (13238271 / 524288)"
  by (simp add: times_f32_def, rule rd_eqI [where e = "4" and k = "- 19" and n = "13238271"])
     (simp_all add: pow2_def)

lemma hang_ops_41: "Fin 3 * Fin 99 = Fin 297"
  by (simp add: times_f32_def, rule rd_eqI [where e = "8" and k = "- 15" and n = "9732096"])
     (simp_all add: pow2_def)

lemma hang_ops_42: "Fin (- 297) + Fin 297 = Fin 0"
  by (simp add: plus_f32_def rd_0)

lemma hang_ops_43: "Fin 2 * Fin (- 99) = Fin (- 198)"
  by (simp add: times_f32_def, rule rd_eqI [where e = "7" and k = "- 16" and n = "- 12976128"])
     (simp_all add: pow2_def)

lemma hang_ops_44: "Fin 198 + Fin (- 198) = Fin 0"
  by (simp add: plus_f32_def rd_0)

lemma hang_ops_45: "Fin 99 + Fin 0 = Fin 99"
  by (simp add: plus_f32_def, rule rd_eqI [where e = "6" and k = "- 17" and n = "12976128"])
     (simp_all add: pow2_def)

lemma hang_ops_46: "Fin (5907123 / 8388608) * Fin 99 = Fin (9137581 / 131072)"
  by (simp add: times_f32_def, rule rd_eqI [where e = "6" and k = "- 17" and n = "9137581"])
     (simp_all add: pow2_def)

lemma hang_ops_47: "Fin 1 + Fin (9137581 / 131072) = Fin (9268653 / 131072)"
  by (simp add: plus_f32_def, rule rd_eqI [where e = "6" and k = "- 17" and n = "9268653"])
     (simp_all add: pow2_def)

lemma hang_ops_48: "Fin (13238271 / 524288) - Fin (101 / 4) = Fin (- (1 / 524288))"
  by (simp add: minus_f32_def, rule rd_eqI [where e = "- 19" and k = "- 42" and n = "- 8388608"])
     (simp_all add: pow2_def)

lemma hang_ops_49:
  "Fin (- (1 / 524288)) / Fin (9268653 / 131072) =
   Fin (- (3796061 / 140737488355328))"
  by (simp add: divide_f32_def, rule rd_eqI [where e = "- 26" and k = "- 49" and n = "- 15184244"])
     (simp_all add: pow2_def)

lemma hang_ops_50:
  "Fin (5907123 / 8388608) - Fin (- (3796061 / 140737488355328)) =
   Fin (5907123 / 8388608)"
  by (simp add: minus_f32_def, rule rd_eqI [where e = "- 1" and k = "- 24" and n = "11814246"])
     (simp_all add: pow2_def)

lemma hang_ops_51: "Fin 1 - Fin (5907123 / 8388608) = Fin (2481485 / 8388608)"
  by (simp add: minus_f32_def, rule rd_eqI [where e = "- 2" and k = "- 25" and n = "9925940"])
     (simp_all add: pow2_def)

lemmas hang_ops =
  hang_ops_0 hang_ops_1 hang_ops_2 hang_ops_3 hang_ops_4 hang_ops_5 hang_ops_6 hang_ops_7
  hang_ops_8 hang_ops_9 hang_ops_10 hang_ops_11 hang_ops_12 hang_ops_13 hang_ops_14 hang_ops_15
  hang_ops_16 hang_ops_17 hang_ops_18 hang_ops_19 hang_ops_20 hang_ops_21 hang_ops_22 hang_ops_23
  hang_ops_24 hang_ops_25 hang_ops_26 hang_ops_27 hang_ops_28 hang_ops_29 hang_ops_30 hang_ops_31
  hang_ops_32 hang_ops_33 hang_ops_34 hang_ops_35 hang_ops_36 hang_ops_37 hang_ops_38 hang_ops_39
  hang_ops_40 hang_ops_41 hang_ops_42 hang_ops_43 hang_ops_44 hang_ops_45 hang_ops_46 hang_ops_47
  hang_ops_48 hang_ops_49 hang_ops_50 hang_ops_51

lemma hang_sqrt: "fsqrt (Fin (10001 / 2)) = Fin (9268653 / 131072)"
proof -
  have a: "pow2 (6) \<le> sqrt (10001 / 2)"
    by (rule real_le_rsqrt) (simp add: pow2_def power2_eq_square)
  have b: "sqrt (10001 / 2) < pow2 (6 + 1)"
    by (rule real_less_lsqrt) (simp_all add: pow2_def power2_eq_square)
  have c: "18537305 / 262144 < sqrt (10001 / 2)"
    by (rule real_less_rsqrt) (simp add: power2_eq_square)
  have d: "sqrt (10001 / 2) < 18537307 / 262144"
    by (rule real_less_lsqrt) (simp_all add: power2_eq_square)
  have r: "\<bar>sqrt (10001 / 2) / pow2 (- 17) - of_int (9268653)\<bar> < 1 / 2"
    unfolding abs_less_iff using c d by (simp add: pow2_def)
  have "rd (sqrt (10001 / 2)) = Fin (9268653 / 131072)"
  proof (rule rd_eqI [where e = "6" and k = "- 17" and n = "9268653"])
    show "pow2 (6) \<le> \<bar>sqrt (10001 / 2)\<bar>" using a by simp
    show "\<bar>sqrt (10001 / 2)\<bar> < pow2 (6 + 1)" using b by simp
    show "\<bar>sqrt (10001 / 2) / pow2 (- 17) - of_int (9268653)\<bar> < 1 / 2 \<or>
          (\<bar>sqrt (10001 / 2) / pow2 (- 17) - of_int (9268653)\<bar> = 1 / 2 \<and> even (9268653 :: int))"
      using r by (rule disjI1)
  qed (simp_all add: pow2_def)
  then show ?thesis by simp
qed

lemma hang_weights:
  "CatmullRomWeights_f32 [Fin 0, Fin 1] (Fin 0) 0 [0, 0, 0, 0] =
   Inr (True, - 1, [Fin 0, Fin 1, Fin 0, Fin 0])"
  by (simp add: CatmullRomWeights_f32_def GetIntArrayerval_2 elt_f_def f32_step hang_ops)

lemma hang_state_repeats:
  assumes "SampleCatmullRom2D_loop_f32 f0 f1 d0 d1 u a b t = Some y"
  shows "\<not> (f0 = Fin 1 \<and> f1 = Fin 100 \<and> d0 = Fin 99 \<and> d1 = Fin 99 \<and> u = Fin (101 / 4) \<and>
        a = Fin (5907123 / 8388608) \<and> b = Fin 1 \<and> t = Fin (5907123 / 8388608))"
proof (rule SampleCatmullRom2D_loop_f32.raw_induct [where P = "\<lambda>f0 f1 d0 d1 u a b t y.
    \<not> (f0 = Fin 1 \<and> f1 = Fin 100 \<and> d0 = Fin 99 \<and> d1 = Fin 99 \<and> u = Fin (101 / 4) \<and>
        a = Fin (5907123 / 8388608) \<and> b = Fin 1 \<and> t = Fin (5907123 / 8388608))", OF _ assms])
  fix loop :: "f32 \<Rightarrow> f32 \<Rightarrow> f32 \<Rightarrow> f32 \<Rightarrow> f32 \<Rightarrow> f32 \<Rightarrow> f32 \<Rightarrow> f32 \<Rightarrow> (f32 \<times> f32) option"
  fix f0 f1 d0 d1 u a b t :: f32 and y :: "f32 \<times> f32"
  assume IH: "\<And>f0 f1 d0 d1 u a b t y. loop f0 f1 d0 d1 u a b t = Some y \<Longrightarrow>
    \<not> (f0 = Fin 1 \<and> f1 = Fin 100 \<and> d0 = Fin 99 \<and> d1 = Fin 99 \<and> u = Fin (101 / 4) \<and>
        a = Fin (5907123 / 8388608) \<and> b = Fin 1 \<and> t = Fin (5907123 / 8388608))"
  assume step: "(let t = (if \<not> (t \<ge> a \<and> t \<le> b) then Fin (1 / 2) * (a + b) else t);
          Fhat = t * (f0 +
                      t * (Fin (1 / 2) * d0 +
                           t * ((1 / Fin 3) * (Fin (- 2) * d0 - d1) + f1 - f0 +
                                t * (Fin (1 / 4) * (d0 + d1) + Fin (1 / 2) * (f0 - f1)))));
          fhat = f0 +
                 t * (d0 +
                      t * (Fin (- 2) * d0 - d1 + Fin 3 * (f1 - f0) +
                           t * (d0 + d1 + Fin 2 * (f0 - f1))))
      in if \<bar>Fhat - u\<bar> < rd (1 / 1000000) \<or> b - a < rd (1 / 1000000) then Some (t, fhat)
         else loop f0 f1 d0 d1 u
                (if Fhat - u < 0 then t else a)
                (if Fhat - u < 0 then b else t)
                (t - (Fhat - u) / fhat)) = Some y"
  show "\<not> (f0 = Fin 1 \<and> f1 = Fin 100 \<and> d0 = Fin 99 \<and> d1 = Fin 99 \<and> u = Fin (101 / 4) \<and>
        a = Fin (5907123 / 8388608) \<and> b = Fin 1 \<and> t = Fin (5907123 / 8388608))"
  proof
    assume s: "f0 = Fin 1 \<and> f1 = Fin 100 \<and> d0 = Fin 99 \<and> d1 = Fin 99 \<and> u = Fin (101 / 4) \<and>
        a = Fin (5907123 / 8388608) \<and> b = Fin 1 \<and> t = Fin (5907123 / 8388608)"
    from step s have "loop (Fin 1) (Fin 100) (Fin 99) (Fin 99) (Fin (101 / 4)) (Fin (5907123 / 8388608)) (Fin 1) (Fin (5907123 / 8388608)) = Some y"
      by (simp add: f32_step hang_ops)
    from IH [OF this] show False by simp
  qed
qed

lemma hang_loop:
  "SampleCatmullRom2D_loop_f32 (Fin 1) (Fin 100) (Fin 99) (Fin 99) (Fin (101 / 4)) (Fin 0) (Fin 1) (Fin (5907123 / 8388608)) = None"
proof -
  have first: "SampleCatmullRom2D_loop_f32 (Fin 1) (Fin 100) (Fin 99) (Fin 99) (Fin (101 / 4)) (Fin 0) (Fin 1) (Fin (5907123 / 8388608)) =
      SampleCatmullRom2D_loop_f32 (Fin 1) (Fin 100) (Fin 99) (Fin 99) (Fin (101 / 4)) (Fin (5907123 / 8388608)) (Fin 1) (Fin (5907123 / 8388608))"
    by (subst SampleCatmullRom2D_loop_f32.simps) (simp add: f32_step hang_ops)
  have "SampleCatmullRom2D_loop_f32 (Fin 1) (Fin 100) (Fin 99) (Fin 99) (Fin (101 / 4)) (Fin (5907123 / 8388608)) (Fin 1) (Fin (5907123 / 8388608)) = None"
  proof (cases "SampleCatmullRom2D_loop_f32 (Fin 1) (Fin 100) (Fin 99) (Fin 99) (Fin (101 / 4)) (Fin (5907123 / 8388608)) (Fin 1) (Fin (5907123 / 8388608))")
    case (Some y)
    from hang_state_repeats [OF this] show ?thesis by simp
  qed simp
  with first show ?thesis by simp
qed

lemma hang_sample:
  "SampleCatmullRom2D_f32 [Fin 0, Fin 1] [Fin 0, Fin 1] [Fin 1, Fin 100, Fin 1, Fin 100]
     [Fin 0, Fin (101 / 2), Fin 0, Fin (101 / 2)] (Fin 0) (Fin (1 / 2)) = None"
  unfolding SampleCatmullRom2D_f32_def hang_weights
  by (simp add: interpolate_f32_def GetIntArrayerval_2 elt_f_def SafeSqrt_f32_def hang_sqrt hang_loop
      f32_step hang_ops del: fsqrt.simps)

text \<open>
  The one-dimensional sampler on the same row: its strict test \<open>!(t > a && t < b)\<close>
  rejects \<open>t = a\<close>, bisects, and the run returns in its sixth round.
\<close>

lemma strict_ops_0: "Fin 1 - Fin 0 = Fin 1"
  by (simp add: minus_f32_def, rule rd_eqI [where e = "0" and k = "- 23" and n = "8388608"])
     (simp_all add: pow2_def)

lemma strict_ops_1: "Fin 100 - Fin 1 = Fin 99"
  by (simp add: minus_f32_def, rule rd_eqI [where e = "6" and k = "- 17" and n = "12976128"])
     (simp_all add: pow2_def)

lemma strict_ops_2: "Fin 99 - Fin 99 = Fin 0"
  by (simp add: minus_f32_def rd_0)

lemma strict_ops_3: "Fin 1 / Fin 12 = Fin (11184811 / 134217728)"
  by (simp add: divide_f32_def, rule rd_eqI [where e = "- 4" and k = "- 27" and n = "11184811"])
     (simp_all add: pow2_def)

lemma strict_ops_4: "Fin 0 * Fin (11184811 / 134217728) = Fin 0"
  by (simp add: times_f32_def rd_0)

lemma strict_ops_5: "Fin 1 + Fin 100 = Fin 101"
  by (simp add: plus_f32_def, rule rd_eqI [where e = "6" and k = "- 17" and n = "13238272"])
     (simp_all add: pow2_def)

lemma strict_ops_6: "Fin 101 * Fin (1 / 2) = Fin (101 / 2)"
  by (simp add: times_f32_def, rule rd_eqI [where e = "5" and k = "- 18" and n = "13238272"])
     (simp_all add: pow2_def)

lemma strict_ops_7: "Fin 0 + Fin (101 / 2) = Fin (101 / 2)"
  by (simp add: plus_f32_def, rule rd_eqI [where e = "5" and k = "- 18" and n = "13238272"])
     (simp_all add: pow2_def)

lemma strict_ops_8: "Fin (101 / 2) * Fin 1 = Fin (101 / 2)"
  by (simp add: times_f32_def, rule rd_eqI [where e = "5" and k = "- 18" and n = "13238272"])
     (simp_all add: pow2_def)

lemma strict_ops_9: "Fin (1 / 2) * Fin (101 / 2) = Fin (101 / 4)"
  by (simp add: times_f32_def, rule rd_eqI [where e = "4" and k = "- 19" and n = "13238272"])
     (simp_all add: pow2_def)

lemma strict_ops_10: "Fin (101 / 4) - Fin 0 = Fin (101 / 4)"
  by (simp add: minus_f32_def, rule rd_eqI [where e = "4" and k = "- 19" and n = "13238272"])
     (simp_all add: pow2_def)

lemma strict_ops_11: "Fin (101 / 4) / Fin 1 = Fin (101 / 4)"
  by (simp add: divide_f32_def, rule rd_eqI [where e = "4" and k = "- 19" and n = "13238272"])
     (simp_all add: pow2_def)

lemma strict_ops_12: "Fin 1 * Fin 1 = Fin 1"
  by (simp add: times_f32_def, rule rd_eqI [where e = "0" and k = "- 23" and n = "8388608"])
     (simp_all add: pow2_def)

lemma strict_ops_13: "Fin 2 * Fin (101 / 4) = Fin (101 / 2)"
  by (simp add: times_f32_def, rule rd_eqI [where e = "5" and k = "- 18" and n = "13238272"])
     (simp_all add: pow2_def)

lemma strict_ops_14: "Fin (101 / 2) * Fin 99 = Fin (9999 / 2)"
  by (simp add: times_f32_def, rule rd_eqI [where e = "12" and k = "- 11" and n = "10238976"])
     (simp_all add: pow2_def)

lemma strict_ops_15: "Fin 1 + Fin (9999 / 2) = Fin (10001 / 2)"
  by (simp add: plus_f32_def, rule rd_eqI [where e = "12" and k = "- 11" and n = "10241024"])
     (simp_all add: pow2_def)

lemma strict_ops_16: "Fin 1 - Fin (9268653 / 131072) = Fin (- (9137581 / 131072))"
  by (simp add: minus_f32_def, rule rd_eqI [where e = "6" and k = "- 17" and n = "- 9137581"])
     (simp_all add: pow2_def)

lemma strict_ops_17: "Fin 1 - Fin 100 = Fin (- 99)"
  by (simp add: minus_f32_def, rule rd_eqI [where e = "6" and k = "- 17" and n = "- 12976128"])
     (simp_all add: pow2_def)

lemma strict_ops_18: "Fin (- (9137581 / 131072)) / Fin (- 99) = Fin (5907123 / 8388608)"
  by (simp add: divide_f32_def, rule rd_eqI [where e = "- 1" and k = "- 24" and n = "11814246"])
     (simp_all add: pow2_def)

lemma strict_ops_19: "Fin (1 / 2) * Fin 99 = Fin (99 / 2)"
  by (simp add: times_f32_def, rule rd_eqI [where e = "5" and k = "- 18" and n = "12976128"])
     (simp_all add: pow2_def)

lemma strict_ops_20: "Fin 1 / Fin 3 = Fin (11184811 / 33554432)"
  by (simp add: divide_f32_def, rule rd_eqI [where e = "- 2" and k = "- 25" and n = "11184811"])
     (simp_all add: pow2_def)

lemma strict_ops_21: "Fin (- 2) * Fin 99 = Fin (- 198)"
  by (simp add: times_f32_def, rule rd_eqI [where e = "7" and k = "- 16" and n = "- 12976128"])
     (simp_all add: pow2_def)

lemma strict_ops_22: "Fin (- 198) - Fin 99 = Fin (- 297)"
  by (simp add: minus_f32_def, rule rd_eqI [where e = "8" and k = "- 15" and n = "- 9732096"])
     (simp_all add: pow2_def)

lemma strict_ops_23: "Fin (11184811 / 33554432) * Fin (- 297) = Fin (- 99)"
  by (simp add: times_f32_def, rule rd_eqI [where e = "6" and k = "- 17" and n = "- 12976128"])
     (simp_all add: pow2_def)

lemma strict_ops_24: "Fin (- 99) + Fin 100 = Fin 1"
  by (simp add: plus_f32_def, rule rd_eqI [where e = "0" and k = "- 23" and n = "8388608"])
     (simp_all add: pow2_def)

lemma strict_ops_25: "Fin 1 - Fin 1 = Fin 0"
  by (simp add: minus_f32_def rd_0)

lemma strict_ops_26: "Fin 99 + Fin 99 = Fin 198"
  by (simp add: plus_f32_def, rule rd_eqI [where e = "7" and k = "- 16" and n = "12976128"])
     (simp_all add: pow2_def)

lemma strict_ops_27: "Fin (1 / 4) * Fin 198 = Fin (99 / 2)"
  by (simp add: times_f32_def, rule rd_eqI [where e = "5" and k = "- 18" and n = "12976128"])
     (simp_all add: pow2_def)

lemma strict_ops_28: "Fin (1 / 2) * Fin (- 99) = Fin (- (99 / 2))"
  by (simp add: times_f32_def, rule rd_eqI [where e = "5" and k = "- 18" and n = "- 12976128"])
     (simp_all add: pow2_def)

lemma strict_ops_29: "Fin (99 / 2) + Fin (- (99 / 2)) = Fin 0"
  by (simp add: plus_f32_def rd_0)

lemma strict_ops_30: "Fin (5907123 / 8388608) * Fin 0 = Fin 0"
  by (simp add: times_f32_def rd_0)

lemma strict_ops_31: "Fin 0 + Fin 0 = Fin 0"
  by (simp add: plus_f32_def rd_0)

lemma strict_ops_32: "Fin (99 / 2) + Fin 0 = Fin (99 / 2)"
  by (simp add: plus_f32_def, rule rd_eqI [where e = "5" and k = "- 18" and n = "12976128"])
     (simp_all add: pow2_def)

lemma strict_ops_33: "Fin (5907123 / 8388608) * Fin (99 / 2) = Fin (9137581 / 262144)"
  by (simp add: times_f32_def, rule rd_eqI [where e = "5" and k = "- 18" and n = "9137581"])
     (simp_all add: pow2_def)

lemma strict_ops_34: "Fin 1 + Fin (9137581 / 262144) = Fin (9399725 / 262144)"
  by (simp add: plus_f32_def, rule rd_eqI [where e = "5" and k = "- 18" and n = "9399725"])
     (simp_all add: pow2_def)

lemma strict_ops_35: "Fin (5907123 / 8388608) * Fin (9399725 / 262144) = Fin (13238271 / 524288)"
  by (simp add: times_f32_def, rule rd_eqI [where e = "4" and k = "- 19" and n = "13238271"])
     (simp_all add: pow2_def)

lemma strict_ops_36: "Fin 3 * Fin 99 = Fin 297"
  by (simp add: times_f32_def, rule rd_eqI [where e = "8" and k = "- 15" and n = "9732096"])
     (simp_all add: pow2_def)

lemma strict_ops_37: "Fin (- 297) + Fin 297 = Fin 0"
  by (simp add: plus_f32_def rd_0)

lemma strict_ops_38: "Fin 2 * Fin (- 99) = Fin (- 198)"
  by (simp add: times_f32_def, rule rd_eqI [where e = "7" and k = "- 16" and n = "- 12976128"])
     (simp_all add: pow2_def)

lemma strict_ops_39: "Fin 198 + Fin (- 198) = Fin 0"
  by (simp add: plus_f32_def rd_0)

lemma strict_ops_40: "Fin 99 + Fin 0 = Fin 99"
  by (simp add: plus_f32_def, rule rd_eqI [where e = "6" and k = "- 17" and n = "12976128"])
     (simp_all add: pow2_def)

lemma strict_ops_41: "Fin (5907123 / 8388608) * Fin 99 = Fin (9137581 / 131072)"
  by (simp add: times_f32_def, rule rd_eqI [where e = "6" and k = "- 17" and n = "9137581"])
     (simp_all add: pow2_def)

lemma strict_ops_42: "Fin 1 + Fin (9137581 / 131072) = Fin (9268653 / 131072)"
  by (simp add: plus_f32_def, rule rd_eqI [where e = "6" and k = "- 17" and n = "9268653"])
     (simp_all add: pow2_def)

lemma strict_ops_43: "Fin (13238271 / 524288) - Fin (101 / 4) = Fin (- (1 / 524288))"
  by (simp add: minus_f32_def, rule rd_eqI [where e = "- 19" and k = "- 42" and n = "- 8388608"])
     (simp_all add: pow2_def)

lemma strict_ops_44:
  "Fin (- (1 / 524288)) / Fin (9268653 / 131072) =
   Fin (- (3796061 / 140737488355328))"
  by (simp add: divide_f32_def, rule rd_eqI [where e = "- 26" and k = "- 49" and n = "- 15184244"])
     (simp_all add: pow2_def)

lemma strict_ops_45:
  "Fin (5907123 / 8388608) - Fin (- (3796061 / 140737488355328)) =
   Fin (5907123 / 8388608)"
  by (simp add: minus_f32_def, rule rd_eqI [where e = "- 1" and k = "- 24" and n = "11814246"])
     (simp_all add: pow2_def)

lemma strict_ops_46: "Fin (5907123 / 8388608) + Fin 1 = Fin (14295731 / 8388608)"
  by (simp add: plus_f32_def, rule rd_eqI [where e = "0" and k = "- 23" and n = "14295731"])
     (simp_all add: pow2_def)

lemma strict_ops_47: "Fin (1 / 2) * Fin (14295731 / 8388608) = Fin (14295731 / 16777216)"
  by (simp add: times_f32_def, rule rd_eqI [where e = "- 1" and k = "- 24" and n = "14295731"])
     (simp_all add: pow2_def)

lemma strict_ops_48: "Fin (14295731 / 16777216) * Fin 0 = Fin 0"
  by (simp add: times_f32_def rd_0)

lemma strict_ops_49: "Fin (14295731 / 16777216) * Fin (99 / 2) = Fin (5528427 / 131072)"
  by (simp add: times_f32_def, rule rd_eqI [where e = "5" and k = "- 18" and n = "11056854"])
     (simp_all add: pow2_def)

lemma strict_ops_50: "Fin 1 + Fin (5528427 / 131072) = Fin (5659499 / 131072)"
  by (simp add: plus_f32_def, rule rd_eqI [where e = "5" and k = "- 18" and n = "11318998"])
     (simp_all add: pow2_def)

lemma strict_ops_51: "Fin (14295731 / 16777216) * Fin (5659499 / 131072) = Fin (9644827 / 262144)"
  by (simp add: times_f32_def, rule rd_eqI [where e = "5" and k = "- 18" and n = "9644827"])
     (simp_all add: pow2_def)

lemma strict_ops_52: "Fin (14295731 / 16777216) * Fin 99 = Fin (5528427 / 65536)"
  by (simp add: times_f32_def, rule rd_eqI [where e = "6" and k = "- 17" and n = "11056854"])
     (simp_all add: pow2_def)

lemma strict_ops_53: "Fin 1 + Fin (5528427 / 65536) = Fin (5593963 / 65536)"
  by (simp add: plus_f32_def, rule rd_eqI [where e = "6" and k = "- 17" and n = "11187926"])
     (simp_all add: pow2_def)

lemma strict_ops_54: "Fin (9644827 / 262144) - Fin (101 / 4) = Fin (3025691 / 262144)"
  by (simp add: minus_f32_def, rule rd_eqI [where e = "3" and k = "- 20" and n = "12102764"])
     (simp_all add: pow2_def)

lemma strict_ops_55: "Fin 1 - Fin (5907123 / 8388608) = Fin (2481485 / 8388608)"
  by (simp add: minus_f32_def, rule rd_eqI [where e = "- 2" and k = "- 25" and n = "9925940"])
     (simp_all add: pow2_def)

lemma strict_ops_56: "Fin (3025691 / 262144) / Fin (5593963 / 65536) = Fin (9074545 / 67108864)"
  by (simp add: divide_f32_def, rule rd_eqI [where e = "- 3" and k = "- 26" and n = "9074545"])
     (simp_all add: pow2_def)

lemma strict_ops_57:
  "Fin (14295731 / 16777216) - Fin (9074545 / 67108864) =
   Fin (12027095 / 16777216)"
  by (simp add: minus_f32_def, rule rd_eqI [where e = "- 1" and k = "- 24" and n = "12027095"])
     (simp_all add: pow2_def)

lemma strict_ops_58: "Fin (12027095 / 16777216) * Fin 0 = Fin 0"
  by (simp add: times_f32_def rd_0)

lemma strict_ops_59: "Fin (12027095 / 16777216) * Fin (99 / 2) = Fin (4651103 / 131072)"
  by (simp add: times_f32_def, rule rd_eqI [where e = "5" and k = "- 18" and n = "9302206"])
     (simp_all add: pow2_def)

lemma strict_ops_60: "Fin 1 + Fin (4651103 / 131072) = Fin (4782175 / 131072)"
  by (simp add: plus_f32_def, rule rd_eqI [where e = "5" and k = "- 18" and n = "9564350"])
     (simp_all add: pow2_def)

lemma strict_ops_61: "Fin (12027095 / 16777216) * Fin (4782175 / 131072) = Fin (13712805 / 524288)"
  by (simp add: times_f32_def, rule rd_eqI [where e = "4" and k = "- 19" and n = "13712805"])
     (simp_all add: pow2_def)

lemma strict_ops_62: "Fin (12027095 / 16777216) * Fin 99 = Fin (4651103 / 65536)"
  by (simp add: times_f32_def, rule rd_eqI [where e = "6" and k = "- 17" and n = "9302206"])
     (simp_all add: pow2_def)

lemma strict_ops_63: "Fin 1 + Fin (4651103 / 65536) = Fin (4716639 / 65536)"
  by (simp add: plus_f32_def, rule rd_eqI [where e = "6" and k = "- 17" and n = "9433278"])
     (simp_all add: pow2_def)

lemma strict_ops_64: "Fin (13712805 / 524288) - Fin (101 / 4) = Fin (474533 / 524288)"
  by (simp add: minus_f32_def, rule rd_eqI [where e = "- 1" and k = "- 24" and n = "15185056"])
     (simp_all add: pow2_def)

lemma strict_ops_65:
  "Fin (14295731 / 16777216) - Fin (5907123 / 8388608) =
   Fin (2481485 / 16777216)"
  by (simp add: minus_f32_def, rule rd_eqI [where e = "- 3" and k = "- 26" and n = "9925940"])
     (simp_all add: pow2_def)

lemma strict_ops_66: "Fin (474533 / 524288) / Fin (4716639 / 65536) = Fin (13503417 / 1073741824)"
  by (simp add: divide_f32_def, rule rd_eqI [where e = "- 7" and k = "- 30" and n = "13503417"])
     (simp_all add: pow2_def)

lemma strict_ops_67:
  "Fin (12027095 / 16777216) - Fin (13503417 / 1073741824) =
   Fin (1477013 / 2097152)"
  by (simp add: minus_f32_def, rule rd_eqI [where e = "- 1" and k = "- 24" and n = "11816104"])
     (simp_all add: pow2_def)

lemma strict_ops_68: "Fin (1477013 / 2097152) * Fin 0 = Fin 0"
  by (simp add: times_f32_def rd_0)

lemma strict_ops_69: "Fin (1477013 / 2097152) * Fin (99 / 2) = Fin (4569509 / 131072)"
  by (simp add: times_f32_def, rule rd_eqI [where e = "5" and k = "- 18" and n = "9139018"])
     (simp_all add: pow2_def)

lemma strict_ops_70: "Fin 1 + Fin (4569509 / 131072) = Fin (4700581 / 131072)"
  by (simp add: plus_f32_def, rule rd_eqI [where e = "5" and k = "- 18" and n = "9401162"])
     (simp_all add: pow2_def)

lemma strict_ops_71: "Fin (1477013 / 2097152) * Fin (4700581 / 131072) = Fin (13242377 / 524288)"
  by (simp add: times_f32_def, rule rd_eqI [where e = "4" and k = "- 19" and n = "13242377"])
     (simp_all add: pow2_def)

lemma strict_ops_72: "Fin (1477013 / 2097152) * Fin 99 = Fin (4569509 / 65536)"
  by (simp add: times_f32_def, rule rd_eqI [where e = "6" and k = "- 17" and n = "9139018"])
     (simp_all add: pow2_def)

lemma strict_ops_73: "Fin 1 + Fin (4569509 / 65536) = Fin (4635045 / 65536)"
  by (simp add: plus_f32_def, rule rd_eqI [where e = "6" and k = "- 17" and n = "9270090"])
     (simp_all add: pow2_def)

lemma strict_ops_74: "Fin (13242377 / 524288) - Fin (101 / 4) = Fin (4105 / 524288)"
  by (simp add: minus_f32_def, rule rd_eqI [where e = "- 7" and k = "- 30" and n = "8407040"])
     (simp_all add: pow2_def)

lemma strict_ops_75: "Fin (12027095 / 16777216) - Fin (5907123 / 8388608) = Fin (212849 / 16777216)"
  by (simp add: minus_f32_def, rule rd_eqI [where e = "- 7" and k = "- 30" and n = "13622336"])
     (simp_all add: pow2_def)

lemma strict_ops_76: "Fin (4105 / 524288) / Fin (4635045 / 65536) = Fin (15215249 / 137438953472)"
  by (simp add: divide_f32_def, rule rd_eqI [where e = "- 14" and k = "- 37" and n = "15215249"])
     (simp_all add: pow2_def)

lemma strict_ops_77:
  "Fin (1477013 / 2097152) - Fin (15215249 / 137438953472) =
   Fin (11814247 / 16777216)"
  by (simp add: minus_f32_def, rule rd_eqI [where e = "- 1" and k = "- 24" and n = "11814247"])
     (simp_all add: pow2_def)

lemma strict_ops_78: "Fin (11814247 / 16777216) * Fin 0 = Fin 0"
  by (simp add: times_f32_def rd_0)

lemma strict_ops_79: "Fin (11814247 / 16777216) * Fin (99 / 2) = Fin (4568791 / 131072)"
  by (simp add: times_f32_def, rule rd_eqI [where e = "5" and k = "- 18" and n = "9137582"])
     (simp_all add: pow2_def)

lemma strict_ops_80: "Fin 1 + Fin (4568791 / 131072) = Fin (4699863 / 131072)"
  by (simp add: plus_f32_def, rule rd_eqI [where e = "5" and k = "- 18" and n = "9399726"])
     (simp_all add: pow2_def)

lemma strict_ops_81: "Fin (11814247 / 16777216) * Fin (4699863 / 131072) = Fin (13238273 / 524288)"
  by (simp add: times_f32_def, rule rd_eqI [where e = "4" and k = "- 19" and n = "13238273"])
     (simp_all add: pow2_def)

lemma strict_ops_82: "Fin (11814247 / 16777216) * Fin 99 = Fin (4568791 / 65536)"
  by (simp add: times_f32_def, rule rd_eqI [where e = "6" and k = "- 17" and n = "9137582"])
     (simp_all add: pow2_def)

lemma strict_ops_83: "Fin 1 + Fin (4568791 / 65536) = Fin (4634327 / 65536)"
  by (simp add: plus_f32_def, rule rd_eqI [where e = "6" and k = "- 17" and n = "9268654"])
     (simp_all add: pow2_def)

lemma strict_ops_84: "Fin (13238273 / 524288) - Fin (101 / 4) = Fin (1 / 524288)"
  by (simp add: minus_f32_def, rule rd_eqI [where e = "- 19" and k = "- 42" and n = "8388608"])
     (simp_all add: pow2_def)

lemma strict_ops_85: "Fin (1477013 / 2097152) - Fin (5907123 / 8388608) = Fin (929 / 8388608)"
  by (simp add: minus_f32_def, rule rd_eqI [where e = "- 14" and k = "- 37" and n = "15220736"])
     (simp_all add: pow2_def)

lemma strict_ops_86: "Fin (1 / 524288) / Fin (4634327 / 65536) = Fin (7592121 / 281474976710656)"
  by (simp add: divide_f32_def, rule rd_eqI [where e = "- 26" and k = "- 49" and n = "15184242"])
     (simp_all add: pow2_def)

lemma strict_ops_87:
  "Fin (11814247 / 16777216) - Fin (7592121 / 281474976710656) =
   Fin (11814247 / 16777216)"
  by (simp add: minus_f32_def, rule rd_eqI [where e = "- 1" and k = "- 24" and n = "11814247"])
     (simp_all add: pow2_def)

lemma strict_ops_88: "Fin (5907123 / 8388608) + Fin (11814247 / 16777216) = Fin (5907123 / 4194304)"
  by (simp add: plus_f32_def, rule rd_eqI [where e = "0" and k = "- 23" and n = "11814246"])
     (simp_all add: pow2_def)

lemma strict_ops_89: "Fin (1 / 2) * Fin (5907123 / 4194304) = Fin (5907123 / 8388608)"
  by (simp add: times_f32_def, rule rd_eqI [where e = "- 1" and k = "- 24" and n = "11814246"])
     (simp_all add: pow2_def)

lemma strict_ops_90: "Fin (11814247 / 16777216) - Fin (5907123 / 8388608) = Fin (1 / 16777216)"
  by (simp add: minus_f32_def, rule rd_eqI [where e = "- 24" and k = "- 47" and n = "8388608"])
     (simp_all add: pow2_def)

lemma strict_ops_91: "Fin 1 * Fin (5907123 / 8388608) = Fin (5907123 / 8388608)"
  by (simp add: times_f32_def, rule rd_eqI [where e = "- 1" and k = "- 24" and n = "11814246"])
     (simp_all add: pow2_def)

lemma strict_ops_92: "Fin 0 + Fin (5907123 / 8388608) = Fin (5907123 / 8388608)"
  by (simp add: plus_f32_def, rule rd_eqI [where e = "- 1" and k = "- 24" and n = "11814246"])
     (simp_all add: pow2_def)

lemma strict_ops_93: "Fin (9268653 / 131072) / Fin (101 / 2) = Fin (2936603 / 2097152)"
  by (simp add: divide_f32_def, rule rd_eqI [where e = "0" and k = "- 23" and n = "11746412"])
     (simp_all add: pow2_def)

lemmas strict_ops =
  strict_ops_0 strict_ops_1 strict_ops_2 strict_ops_3 strict_ops_4 strict_ops_5 strict_ops_6
  strict_ops_7 strict_ops_8 strict_ops_9 strict_ops_10 strict_ops_11 strict_ops_12 strict_ops_13
  strict_ops_14 strict_ops_15 strict_ops_16 strict_ops_17 strict_ops_18 strict_ops_19
  strict_ops_20 strict_ops_21 strict_ops_22 strict_ops_23 strict_ops_24 strict_ops_25
  strict_ops_26 strict_ops_27 strict_ops_28 strict_ops_29 strict_ops_30 strict_ops_31
  strict_ops_32 strict_ops_33 strict_ops_34 strict_ops_35 strict_ops_36 strict_ops_37
  strict_ops_38 strict_ops_39 strict_ops_40 strict_ops_41 strict_ops_42 strict_ops_43
  strict_ops_44 strict_ops_45 strict_ops_46 strict_ops_47 strict_ops_48 strict_ops_49
  strict_ops_50 strict_ops_51 strict_ops_52 strict_ops_53 strict_ops_54 strict_ops_55
  strict_ops_56 strict_ops_57 strict_ops_58 strict_ops_59 strict_ops_60 strict_ops_61
  strict_ops_62 strict_ops_63 strict_ops_64 strict_ops_65 strict_ops_66 strict_ops_67
  strict_ops_68 strict_ops_69 strict_ops_70 strict_ops_71 strict_ops_72 strict_ops_73
  strict_ops_74 strict_ops_75 strict_ops_76 strict_ops_77 strict_ops_78 strict_ops_79
  strict_ops_80 strict_ops_81 strict_ops_82 strict_ops_83 strict_ops_84 strict_ops_85
  strict_ops_86 strict_ops_87 strict_ops_88 strict_ops_89 strict_ops_90 strict_ops_91
  strict_ops_92 strict_ops_93

lemma strict_sqrt: "fsqrt (Fin (10001 / 2)) = Fin (9268653 / 131072)"
proof -
  have a: "pow2 (6) \<le> sqrt (10001 / 2)"
    by (rule real_le_rsqrt) (simp add: pow2_def power2_eq_square)
  have b: "sqrt (10001 / 2) < pow2 (6 + 1)"
    by (rule real_less_lsqrt) (simp_all add: pow2_def power2_eq_square)
  have c: "18537305 / 262144 < sqrt (10001 / 2)"
    by (rule real_less_rsqrt) (simp add: power2_eq_square)
  have d: "sqrt (10001 / 2) < 18537307 / 262144"
    by (rule real_less_lsqrt) (simp_all add: power2_eq_square)
  have r: "\<bar>sqrt (10001 / 2) / pow2 (- 17) - of_int (9268653)\<bar> < 1 / 2"
    unfolding abs_less_iff using c d by (simp add: pow2_def)
  have "rd (sqrt (10001 / 2)) = Fin (9268653 / 131072)"
  proof (rule rd_eqI [where e = "6" and k = "- 17" and n = "9268653"])
    show "pow2 (6) \<le> \<bar>sqrt (10001 / 2)\<bar>" using a by simp
    show "\<bar>sqrt (10001 / 2)\<bar> < pow2 (6 + 1)" using b by simp
    show "\<bar>sqrt (10001 / 2) / pow2 (- 17) - of_int (9268653)\<bar> < 1 / 2 \<or>
          (\<bar>sqrt (10001 / 2) / pow2 (- 17) - of_int (9268653)\<bar> = 1 / 2 \<and> even (9268653 :: int))"
      using r by (rule disjI1)
  qed (simp_all add: pow2_def)
  then show ?thesis by simp
qed

lemma strict_cdf:
  "IntegrateCatmullRom_f32 [Fin 0, Fin 1] [Fin 1, Fin 100] [0, 0] =
   Inr (Fin (101 / 2), [Fin 0, Fin (101 / 2)])"
  by (simp add: IntegrateCatmullRom_f32_def IntegrateCatmullRom_body_f32_def upt_conv_Cons
      f32_step strict_ops)

lemma strict_round_0:
  "SampleCatmullRom_loop_f32 (Fin 1) (Fin 100) (Fin 99) (Fin 99) (Fin (101 / 4))
     (Fin 0) (Fin 1) (Fin (5907123 / 8388608)) =
   SampleCatmullRom_loop_f32 (Fin 1) (Fin 100) (Fin 99) (Fin 99) (Fin (101 / 4))
     (Fin (5907123 / 8388608)) (Fin 1) (Fin (5907123 / 8388608))"
  by (subst SampleCatmullRom_loop_f32.simps) (simp add: f32_step strict_ops)

lemma strict_round_1:
  "SampleCatmullRom_loop_f32 (Fin 1) (Fin 100) (Fin 99) (Fin 99) (Fin (101 / 4))
     (Fin (5907123 / 8388608)) (Fin 1) (Fin (5907123 / 8388608)) =
   SampleCatmullRom_loop_f32 (Fin 1) (Fin 100) (Fin 99) (Fin 99) (Fin (101 / 4))
     (Fin (5907123 / 8388608)) (Fin (14295731 / 16777216)) (Fin (12027095 / 16777216))"
  by (subst SampleCatmullRom_loop_f32.simps) (simp add: f32_step strict_ops)

lemma strict_round_2:
  "SampleCatmullRom_loop_f32 (Fin 1) (Fin 100) (Fin 99) (Fin 99) (Fin (101 / 4))
     (Fin (5907123 / 8388608)) (Fin (14295731 / 16777216)) (Fin (12027095 / 16777216)) =
   SampleCatmullRom_loop_f32 (Fin 1) (Fin 100) (Fin 99) (Fin 99) (Fin (101 / 4))
     (Fin (5907123 / 8388608)) (Fin (12027095 / 16777216)) (Fin (1477013 / 2097152))"
  by (subst SampleCatmullRom_loop_f32.simps) (simp add: f32_step strict_ops)

lemma strict_round_3:
  "SampleCatmullRom_loop_f32 (Fin 1) (Fin 100) (Fin 99) (Fin 99) (Fin (101 / 4))
     (Fin (5907123 / 8388608)) (Fin (12027095 / 16777216)) (Fin (1477013 / 2097152)) =
   SampleCatmullRom_loop_f32 (Fin 1) (Fin 100) (Fin 99) (Fin 99) (Fin (101 / 4))
     (Fin (5907123 / 8388608)) (Fin (1477013 / 2097152)) (Fin (11814247 / 16777216))"
  by (subst SampleCatmullRom_loop_f32.simps) (simp add: f32_step strict_ops)

lemma strict_round_4:
  "SampleCatmullRom_loop_f32 (Fin 1) (Fin 100) (Fin 99) (Fin 99) (Fin (101 / 4))
     (Fin (5907123 / 8388608)) (Fin (1477013 / 2097152)) (Fin (11814247 / 16777216)) =
   SampleCatmullRom_loop_f32 (Fin 1) (Fin 100) (Fin 99) (Fin 99) (Fin (101 / 4))
     (Fin (5907123 / 8388608)) (Fin (11814247 / 16777216)) (Fin (11814247 / 16777216))"
  by (subst SampleCatmullRom_loop_f32.simps) (simp add: f32_step strict_ops)

lemma strict_round_5:
  "SampleCatmullRom_loop_f32 (Fin 1) (Fin 100) (Fin 99) (Fin 99) (Fin (101 / 4))
     (Fin (5907123 / 8388608)) (Fin (11814247 / 16777216)) (Fin (11814247 / 16777216)) =
   Some (Fin (5907123 / 8388608), Fin (9268653 / 131072))"
  by (subst SampleCatmullRom_loop_f32.simps) (simp add: f32_step strict_ops)

lemma strict_loop:
  "SampleCatmullRom_loop_f32 (Fin 1) (Fin 100) (Fin 99) (Fin 99) (Fin (101 / 4))
     (Fin 0) (Fin 1) (Fin (5907123 / 8388608)) = Some (Fin (5907123 / 8388608), Fin (9268653 / 131072))"
  by (simp only: strict_round_0 strict_round_1 strict_round_2 strict_round_3 strict_round_4
      strict_round_5)

lemma strict_sample:
  "SampleCatmullRom_f32 [Fin 0, Fin 1] [Fin 1, Fin 100] [Fin 0, Fin (101 / 2)]
     (Fin (1 / 2)) =
   Some (Inr (Fin (5907123 / 8388608), Fin (9268653 / 131072), Fin (2936603 / 2097152)))"
  unfolding SampleCatmullRom_f32_def
  by (simp add: GetIntArrayerval_2 elt_f_def SafeSqrt_f32_def strict_sqrt strict_loop
      f32_step strict_ops del: fsqrt.simps)

text \<open>
  Claim C9 fails on the program. The table above is a valid input of
  \<open>SampleCatmullRom2D\<close>: strictly increasing nodes, positive values, each cdf row the one
  \<open>IntegrateCatmullRom\<close> computes for its row of values, \<open>alpha\<close> in the domain and \<open>u\<close> in
  \<open>[0, 1)\<close>. On it the Newton-bisection loop of \<open>SampleCatmullRom2D\<close> never reaches its
  \<open>break\<close>: neither the bracket width \<open>b - a\<close> nor the residual changes after the first
  round. \<open>SampleCatmullRom\<close> returns on the same row.
\<close>

theorem SampleCatmullRom2D_f32_never_returns:
  "IntegrateCatmullRom_f32 [Fin 0, Fin 1] [Fin 1, Fin 100] [0, 0] =
       Inr (Fin (101 / 2), [Fin 0, Fin (101 / 2)])
   \<and> SampleCatmullRom2D_f32 [Fin 0, Fin 1] [Fin 0, Fin 1] [Fin 1, Fin 100, Fin 1, Fin 100]
         [Fin 0, Fin (101 / 2), Fin 0, Fin (101 / 2)] (Fin 0) (Fin (1 / 2)) = None
   \<and> SampleCatmullRom_f32 [Fin 0, Fin 1] [Fin 1, Fin 100] [Fin 0, Fin (101 / 2)] (Fin (1 / 2)) =
       Some (Inr (Fin (5907123 / 8388608), Fin (9268653 / 131072), Fin (2936603 / 2097152)))"
  using strict_cdf hang_sample strict_sample by simp

theorem SampleCatmullRom2D_f32_never_returns_witness:
  "SampleCatmullRom2D_f32 [Fin 0, Fin 1] [Fin 0, Fin 1] [Fin 1, Fin 100, Fin 1, Fin 100]
     [Fin 0, Fin (101 / 2), Fin 0, Fin (101 / 2)] (Fin 0) (Fin (1 / 2)) = None
   \<and> (\<exists>r. SampleCatmullRom_f32 [Fin 0, Fin 1] [Fin 1, Fin 100] [Fin 0, Fin (101 / 2)] (Fin (1 / 2)) =
         Some r)"
  using SampleCatmullRom2D_f32_never_returns by blast

end
